theory Spec2Isabelle
  imports
    Main
    "HOL-Library.Word"
    "HOL-Library.Char_ord"
    "HOL-Library.List_Lexorder"
    "HOL-Library.Multiset"
begin

unbundle bit_operations_syntax

section \<open>Python values\<close>

text \<open>
  Blocks, transactions and everything a peer sends are JSON-like Python values. A dict keeps
  its items in insertion order (an association list); Python keeps its keys distinct, which
  \<open>wf_pyval\<close> states. A string is a list of code points below 256. A float is carried as the
  text that \<open>repr\<close> gives it (the clock reading of \<open>time()\<close>, a JSON number with a fraction):
  the program prints and hashes floats but computes with them in one place only, see
  \<open>py_add_one\<close>.
\<close>

datatype pyval =
    PNone
  | PBool bool
  | PInt int
  | PFloat string
  | PStr string
  | PList "pyval list"
  | PDict "(string \<times> pyval) list"

datatype error = IndexError | KeyError | TypeError | ValueError | ConnectionError

fun wf_pyval :: "pyval \<Rightarrow> bool" where
  "wf_pyval (PList xs) = list_all wf_pyval xs"
| "wf_pyval (PDict kvs) = (distinct (map fst kvs) \<and> list_all (\<lambda>kv. wf_pyval (snd kv)) kvs)"
| "wf_pyval _ = True"

text \<open>Truth value testing, as \<open>or\<close> and \<open>if\<close> apply it.\<close>

fun truthy :: "pyval \<Rightarrow> bool" where
  "truthy PNone = False"
| "truthy (PBool b) = b"
| "truthy (PInt i) = (i \<noteq> 0)"
| "truthy (PFloat f) = (f \<noteq> ''0.0'' \<and> f \<noteq> ''-0.0'')"
| "truthy (PStr s) = (s \<noteq> [])"
| "truthy (PList xs) = (xs \<noteq> [])"
| "truthy (PDict kvs) = (kvs \<noteq> [])"

text \<open>Subscription \<open>v[key]\<close> with a string key.\<close>

fun getitem :: "pyval \<Rightarrow> string \<Rightarrow> error + pyval" where
  "getitem (PDict kvs) key = (case map_of kvs key of None \<Rightarrow> Inl KeyError | Some v \<Rightarrow> Inr v)"
| "getitem _ key = Inl TypeError"

text \<open>
  \<open>v + 1\<close>. The sum of a float and 1 is a float again; its digits are not computed here.
\<close>

datatype number = Exactly int | SomeFloat

fun py_add_one :: "pyval \<Rightarrow> error + number" where
  "py_add_one (PInt i) = Inr (Exactly (i + 1))"
| "py_add_one (PBool b) = Inr (Exactly ((if b then 1 else 0) + 1))"
| "py_add_one (PFloat f) = Inr SomeFloat"
| "py_add_one _ = Inl TypeError"

section \<open>Text of a value\<close>

definition digit_char :: "int \<Rightarrow> char" where
  "digit_char n = char_of (48 + n)"

function digits10 :: "int \<Rightarrow> string" where
  "digits10 n = (if n < 10 then [digit_char n] else digits10 (n div 10) @ [digit_char (n mod 10)])"
  by pat_completeness auto

termination
  by (relation "measure nat") auto

declare digits10.simps [simp del]

definition str_int :: "int \<Rightarrow> string" where
  "str_int i = (if i < 0 then CHR ''-'' # digits10 (- i) else digits10 i)"

definition hexdigit :: "nat \<Rightarrow> char" where
  "hexdigit n = ''0123456789abcdef'' ! n"

definition hex2 :: "char \<Rightarrow> string" where
  "hex2 c = [hexdigit (of_char c div 16), hexdigit (of_char c mod 16)]"

fun join :: "string \<Rightarrow> string list \<Rightarrow> string" where
  "join sep [] = []"
| "join sep [x] = x"
| "join sep (x # y # ys) = x @ sep @ join sep (y # ys)"

text \<open>\<open>repr\<close> of a string: the quote is \<open>"\<close> only when the string has a \<open>'\<close> and no \<open>"\<close>.\<close>

definition printable :: "char \<Rightarrow> bool" where
  "printable c = (let n = (of_char c :: nat) in
     (32 \<le> n \<and> n < 127) \<or> (161 \<le> n \<and> n \<noteq> 173))"

definition repr_char :: "char \<Rightarrow> char \<Rightarrow> string" where
  "repr_char quote c =
     (if c = quote \<or> c = CHR 0x5C then [CHR 0x5C, c]
      else if c = CHR 0x09 then [CHR 0x5C, CHR ''t'']
      else if c = CHR 0x0A then [CHR 0x5C, CHR ''n'']
      else if c = CHR 0x0D then [CHR 0x5C, CHR ''r'']
      else if printable c then [c]
      else [CHR 0x5C, CHR ''x''] @ hex2 c)"

definition repr_str :: "string \<Rightarrow> string" where
  "repr_str s =
     (let quote = (if CHR 0x27 \<in> set s \<and> CHR 0x22 \<notin> set s then CHR 0x22 else CHR 0x27)
      in [quote] @ concat (map (repr_char quote) s) @ [quote])"

fun py_repr :: "pyval \<Rightarrow> string" where
  "py_repr PNone = ''None''"
| "py_repr (PBool b) = (if b then ''True'' else ''False'')"
| "py_repr (PInt i) = str_int i"
| "py_repr (PFloat f) = f"
| "py_repr (PStr s) = repr_str s"
| "py_repr (PList xs) = ''['' @ join '', '' (map py_repr xs) @ '']''"
| "py_repr (PDict kvs) =
     ''{'' @ join '', '' (map (\<lambda>kv. repr_str (fst kv) @ '': '' @ py_repr (snd kv)) kvs) @ ''}''"

text \<open>\<open>str(v)\<close>, which an f-string field \<open>{v}\<close> inserts.\<close>

definition py_str :: "pyval \<Rightarrow> string" where
  "py_str v = (case v of PStr s \<Rightarrow> s | _ \<Rightarrow> py_repr v)"

section \<open>json.dumps with sorted keys\<close>

definition json_char :: "char \<Rightarrow> string" where
  "json_char c =
     (if c = CHR 0x22 then [CHR 0x5C, CHR 0x22]
      else if c = CHR 0x5C then [CHR 0x5C, CHR 0x5C]
      else if c = CHR 0x0A then [CHR 0x5C, CHR ''n'']
      else if c = CHR 0x0D then [CHR 0x5C, CHR ''r'']
      else if c = CHR 0x09 then [CHR 0x5C, CHR ''t'']
      else if c = CHR 0x08 then [CHR 0x5C, CHR ''b'']
      else if c = CHR 0x0C then [CHR 0x5C, CHR ''f'']
      else if 32 \<le> (of_char c :: nat) \<and> (of_char c :: nat) < 127 then [c]
      else [CHR 0x5C, CHR ''u'', CHR ''0'', CHR ''0''] @ hex2 c)"

definition json_str :: "string \<Rightarrow> string" where
  "json_str s = [CHR 0x22] @ concat (map json_char s) @ [CHR 0x22]"

definition json_float :: "string \<Rightarrow> string" where
  "json_float f =
     (if f = ''nan'' then ''NaN''
      else if f = ''inf'' then ''Infinity''
      else if f = ''-inf'' then ''-Infinity''
      else f)"

function dumps :: "pyval \<Rightarrow> string" where
  "dumps PNone = ''null''"
| "dumps (PBool b) = (if b then ''true'' else ''false'')"
| "dumps (PInt i) = str_int i"
| "dumps (PFloat f) = json_float f"
| "dumps (PStr s) = json_str s"
| "dumps (PList xs) = ''['' @ join '', '' (map dumps xs) @ '']''"
| "dumps (PDict kvs) =
     ''{'' @ join '', '' (map (\<lambda>kv. json_str (fst kv) @ '': '' @ dumps (snd kv))
                            (sort_key fst kvs)) @ ''}''"
  by pat_completeness auto

termination
proof (relation "measure size")
  fix kvs :: "(string \<times> pyval) list" and kv
  assume "kv \<in> set (sort_key fst kvs)"
  then have "kv \<in> set kvs" by simp
  then have "size (snd kv) < Suc (size_list (size_prod (\<lambda>_. 0) size) kvs)"
    by (induction kvs) auto
  then show "(snd kv, PDict kvs) \<in> measure size" by simp
qed (auto simp: less_Suc_eq_le size_list_estimation')

text \<open>
  \<open>str.encode()\<close>: UTF-8, one or two bytes for a code point below 256. A string with a
  lone surrogate, which \<open>str.encode()\<close> refuses with \<open>UnicodeEncodeError\<close>, is not among
  the strings of this development.
\<close>

type_synonym byte = "8 word"

definition encode_char :: "char \<Rightarrow> byte list" where
  "encode_char c =
     (let n = (of_char c :: nat) in
      if n < 128 then [word_of_nat n]
      else [word_of_nat (192 + n div 64), word_of_nat (128 + n mod 64)])"

definition encode :: "string \<Rightarrow> byte list" where
  "encode s = concat (map encode_char s)"

section \<open>hashlib.sha256\<close>

text \<open>
  SHA-256 as FIPS 180-4 defines it. The round constants and the initial hash value are
  written in decimal.
\<close>

type_synonym u32 = "32 word"

definition K256 :: "u32 list" where
  "K256 =
    [1116352408, 1899447441, 3049323471, 3921009573, 961987163, 1508970993,
     2453635748, 2870763221, 3624381080, 310598401, 607225278, 1426881987,
     1925078388, 2162078206, 2614888103, 3248222580, 3835390401, 4022224774,
     264347078, 604807628, 770255983, 1249150122, 1555081692, 1996064986,
     2554220882, 2821834349, 2952996808, 3210313671, 3336571891, 3584528711,
     113926993, 338241895, 666307205, 773529912, 1294757372, 1396182291,
     1695183700, 1986661051, 2177026350, 2456956037, 2730485921, 2820302411,
     3259730800, 3345764771, 3516065817, 3600352804, 4094571909, 275423344,
     430227734, 506948616, 659060556, 883997877, 958139571, 1322822218,
     1537002063, 1747873779, 1955562222, 2024104815, 2227730452, 2361852424,
     2428436474, 2756734187, 3204031479, 3329325298]"

definition H256 :: "u32 list" where
  "H256 =
    [1779033703, 3144134277, 1013904242, 2773480762, 1359893119, 2600822924,
     528734635, 1541459225]"

definition Ch :: "u32 \<Rightarrow> u32 \<Rightarrow> u32 \<Rightarrow> u32" where
  "Ch x y z = (x AND y) XOR (NOT x AND z)"

definition Maj :: "u32 \<Rightarrow> u32 \<Rightarrow> u32 \<Rightarrow> u32" where
  "Maj x y z = (x AND y) XOR (x AND z) XOR (y AND z)"

definition bsig0 :: "u32 \<Rightarrow> u32" where
  "bsig0 x = word_rotr 2 x XOR word_rotr 13 x XOR word_rotr 22 x"

definition bsig1 :: "u32 \<Rightarrow> u32" where
  "bsig1 x = word_rotr 6 x XOR word_rotr 11 x XOR word_rotr 25 x"

definition ssig0 :: "u32 \<Rightarrow> u32" where
  "ssig0 x = word_rotr 7 x XOR word_rotr 18 x XOR drop_bit 3 x"

definition ssig1 :: "u32 \<Rightarrow> u32" where
  "ssig1 x = word_rotr 17 x XOR word_rotr 19 x XOR drop_bit 10 x"

text \<open>The message schedule, newest word first: \<open>n\<close> more words from the sixteen before.\<close>

fun schedule :: "nat \<Rightarrow> u32 list \<Rightarrow> u32 list" where
  "schedule 0 w = w"
| "schedule (Suc n) w =
     schedule n ((ssig1 (w ! 1) + w ! 6 + ssig0 (w ! 14) + w ! 15) # w)"

fun round256 :: "u32 list \<Rightarrow> u32 \<times> u32 \<Rightarrow> u32 list" where
  "round256 [a, b, c, d, e, f, g, h] (k, w) =
     (let t1 = h + bsig1 e + Ch e f g + k + w;
          t2 = bsig0 a + Maj a b c
      in [t1 + t2, a, b, c, d + t1, e, f, g])"
| "round256 s _ = s"

definition compress :: "u32 list \<Rightarrow> u32 list \<Rightarrow> u32 list" where
  "compress h ws = map2 (+) h (foldl round256 h (zip K256 (rev (schedule 48 (rev ws)))))"

fun be32 :: "byte list \<Rightarrow> u32 list" where
  "be32 (a # b # c # d # r) =
     (push_bit 24 (ucast a) OR push_bit 16 (ucast b) OR push_bit 8 (ucast c) OR ucast d) # be32 r"
| "be32 _ = []"

fun blocks16 :: "nat \<Rightarrow> u32 list \<Rightarrow> u32 list list" where
  "blocks16 0 ws = []"
| "blocks16 (Suc n) ws = take 16 ws # blocks16 n (drop 16 ws)"

definition pad :: "byte list \<Rightarrow> byte list" where
  "pad m =
     (let l = length m in
      m @ [0x80] @ replicate ((119 - l mod 64) mod 64) 0 @
      map (\<lambda>i. ucast (drop_bit (8 * i) (word_of_nat (8 * l) :: 64 word))) [7, 6, 5, 4, 3, 2, 1, 0])"

definition hex32 :: "u32 \<Rightarrow> string" where
  "hex32 w = map (\<lambda>i. hexdigit (unat (drop_bit (4 * i) w AND 15))) [7, 6, 5, 4, 3, 2, 1, 0]"

definition sha256 :: "byte list \<Rightarrow> u32 list" where
  "sha256 m = (let ws = be32 (pad m) in foldl compress H256 (blocks16 (length ws div 16) ws))"

definition hexdigest :: "u32 list \<Rightarrow> string" where
  "hexdigest h = concat (map hex32 h)"

section \<open>Hashing and the puzzle\<close>

text \<open>\<open>Blockchain.hash\<close>: SHA-256 of the block's JSON text with sorted keys, in hexadecimal.\<close>

definition hash :: "pyval \<Rightarrow> string" where
  "hash block = (let block_string = encode (dumps block) in hexdigest (sha256 block_string))"

text \<open>\<open>Blockchain.valid_proof\<close>.\<close>

definition valid_proof :: "pyval \<Rightarrow> pyval \<Rightarrow> bool" where
  "valid_proof last_proof proof =
     (let guess = encode (py_str last_proof @ py_str proof);
          guess_hash = hexdigest (sha256 guess)
      in take 4 guess_hash = ''0000'')"

text \<open>
  \<open>Blockchain.proof_of_work\<close>: the search from 0 upwards has no bound; \<open>None\<close> is a search
  that never ends.
\<close>

partial_function (option) proof_of_work_from :: "pyval \<Rightarrow> int \<Rightarrow> int option" where
  "proof_of_work_from last_proof proof =
     (if valid_proof last_proof (PInt proof) then Some proof
      else proof_of_work_from last_proof (proof + 1))"

declare proof_of_work_from.simps [code]

definition proof_of_work :: "pyval \<Rightarrow> int option" where
  "proof_of_work last_proof = proof_of_work_from last_proof 0"

section \<open>The ledger\<close>

record ledger =
  chain :: "pyval list"
  current_transactions :: "pyval list"
  nodes :: "string set"

text \<open>\<open>Blockchain.last_block\<close>: \<open>self.chain[-1]\<close>.\<close>

definition last_block :: "ledger \<Rightarrow> error + pyval" where
  "last_block s = (if chain s = [] then Inl IndexError else Inr (last (chain s)))"

text \<open>
  \<open>Blockchain.new_block(previous_hash, proof)\<close>; \<open>now\<close> is the reading of \<open>time()\<close>. The
  dict display evaluates \<open>previous_hash or self.hash(self.chain[-1])\<close> before anything is
  assigned, so an \<open>IndexError\<close> leaves the ledger as it was.
\<close>

definition new_block :: "pyval \<Rightarrow> pyval \<Rightarrow> pyval \<Rightarrow> ledger \<Rightarrow> ledger \<times> (error + pyval)" where
  "new_block now previous_hash proof s =
     (if \<not> truthy previous_hash \<and> chain s = [] then (s, Inl IndexError)
      else
        (let block = PDict
               [(''index'', PInt (int (length (chain s)) + 1)),
                (''timestamp'', now),
                (''transactions'', PList (current_transactions s)),
                (''proof'', proof),
                (''previous_hash'',
                   if truthy previous_hash then previous_hash
                   else PStr (hash (last (chain s))))]
         in (s\<lparr>current_transactions := [], chain := chain s @ [block]\<rparr>, Inr block)))"

text \<open>\<open>Blockchain.__init__\<close>: the genesis block.\<close>

definition Blockchain_init :: "pyval \<Rightarrow> error + ledger" where
  "Blockchain_init now =
     (case new_block now (PInt 1) (PInt 100) \<lparr>chain = [], current_transactions = [], nodes = {}\<rparr> of
        (s, Inl e) \<Rightarrow> Inl e
      | (s, Inr block) \<Rightarrow> Inr s)"

text \<open>
  \<open>Blockchain.new_transaction\<close>: the transaction is appended before the index of the last
  block is read, so a failure of that read leaves it in the buffer.
\<close>

definition new_transaction :: "pyval \<Rightarrow> pyval \<Rightarrow> pyval \<Rightarrow> ledger \<Rightarrow> ledger \<times> (error + number)" where
  "new_transaction sender recipient amount s =
     (let s' = s\<lparr>current_transactions := current_transactions s @
                  [PDict [(''sender'', sender), (''recipient'', recipient), (''amount'', amount)]]\<rparr>
      in (s', case last_block s' of
                Inl e \<Rightarrow> Inl e
              | Inr b \<Rightarrow> (case getitem b ''index'' of Inl e \<Rightarrow> Inl e | Inr i \<Rightarrow> py_add_one i)))"

text \<open>
  \<open>Blockchain.valid_chain\<close>: the loop over \<open>current_index\<close> is the recursion over the blocks
  after the first; what it prints is left out. Subscriptions are evaluated in the order of
  the source: \<open>block['previous_hash']\<close>, then \<open>last_block['previous_hash']\<close>, then
  \<open>block['proof']\<close>.
\<close>

fun valid_chain_from :: "pyval \<Rightarrow> pyval list \<Rightarrow> error + bool" where
  "valid_chain_from last_blk [] = Inr True"
| "valid_chain_from last_blk (block # rest) =
     (case getitem block ''previous_hash'' of
        Inl e \<Rightarrow> Inl e
      | Inr previous_hash \<Rightarrow>
          if previous_hash \<noteq> PStr (hash last_blk) then Inr False
          else
            (case getitem last_blk ''previous_hash'' of
               Inl e \<Rightarrow> Inl e
             | Inr last_proof \<Rightarrow>
                 (case getitem block ''proof'' of
                    Inl e \<Rightarrow> Inl e
                  | Inr proof \<Rightarrow>
                      if \<not> valid_proof last_proof proof then Inr False
                      else valid_chain_from block rest)))"

definition valid_chain :: "pyval list \<Rightarrow> error + bool" where
  "valid_chain c = (case c of [] \<Rightarrow> Inl IndexError | last_blk # rest \<Rightarrow> valid_chain_from last_blk rest)"

text \<open>
  What \<open>requests.get\<close> gives for a peer: an exception, or a response with its status code
  and, read by \<open>response.json()\<close>, the members \<open>length\<close> and \<open>chain\<close>. The body of a response
  with status 200 is taken to be an object with an integer \<open>length\<close> and an array \<open>chain\<close>;
  the elements of the array are arbitrary values.
\<close>

record response =
  status_code :: int
  json_length :: int
  json_chain :: "pyval list"

text \<open>The address \<open>f'http://{node}/chain'\<close> that is fetched for a peer.\<close>

definition chain_url :: "string \<Rightarrow> string" where
  "chain_url node = ''http://'' @ node @ ''/chain''"

text \<open>The body of the \<open>for\<close> loop of \<open>resolve_conflicts\<close>, over the peers still to visit.\<close>

fun resolve_loop ::
  "(string \<Rightarrow> error + response) \<Rightarrow> string list \<Rightarrow> pyval list option \<Rightarrow> int
     \<Rightarrow> error + pyval list option"
where
  "resolve_loop get [] new_chain max_chain_length = Inr new_chain"
| "resolve_loop get (node # rest) new_chain max_chain_length =
     (case get (chain_url node) of
        Inl e \<Rightarrow> Inl e
      | Inr r \<Rightarrow>
          if status_code r = 200 then
            (if json_length r > max_chain_length then
               (case valid_chain (json_chain r) of
                  Inl e \<Rightarrow> Inl e
                | Inr ok \<Rightarrow>
                    if ok then resolve_loop get rest (Some (json_chain r)) (json_length r)
                    else resolve_loop get rest new_chain max_chain_length)
             else resolve_loop get rest new_chain max_chain_length)
          else resolve_loop get rest new_chain max_chain_length)"

text \<open>
  \<open>Blockchain.resolve_conflicts\<close>. \<open>get\<close> is \<open>requests.get\<close>; \<open>iterate\<close> gives the order in
  which the \<open>for\<close> loop visits the set of peers. The chain is assigned after the loop
  only, so an exception leaves the ledger as it was.
\<close>

definition resolve_conflicts ::
  "(string \<Rightarrow> error + response) \<Rightarrow> (string set \<Rightarrow> string list) \<Rightarrow> ledger \<Rightarrow> ledger \<times> (error + bool)"
where
  "resolve_conflicts get iterate s =
     (let neighbours = iterate (nodes s);
          max_chain_length = int (length (chain s))
      in case resolve_loop get neighbours None max_chain_length of
           Inl e \<Rightarrow> (s, Inl e)
         | Inr None \<Rightarrow> (s, Inr False)
         | Inr (Some new_chain) \<Rightarrow>
             if new_chain \<noteq> [] then (s\<lparr>chain := new_chain\<rparr>, Inr True) else (s, Inr False))"

text \<open>
  \<open>urlparse(address).netloc\<close> as \<open>urllib.parse.urlsplit\<close> of CPython 3.11 computes it: leading
  control characters and spaces are stripped, tabs and line breaks removed, a scheme is
  split off, and the network location is what follows \<open>//\<close> up to the first of \<open>/\<close>, \<open>?\<close>
  and \<open>#\<close>. Unbalanced square brackets raise \<open>ValueError\<close>; for a bracketed host the library
  checks that it is an IP literal, which is the parameter \<open>ip_literal\<close> here. The check of
  the normalised form of a non-ASCII location cannot fail for code points below 256.
\<close>

definition ascii_alpha :: "char \<Rightarrow> bool" where
  "ascii_alpha c = (let n = (of_char c :: nat) in (65 \<le> n \<and> n \<le> 90) \<or> (97 \<le> n \<and> n \<le> 122))"

definition scheme_char :: "char \<Rightarrow> bool" where
  "scheme_char c =
     (let n = (of_char c :: nat) in
      ascii_alpha c \<or> (48 \<le> n \<and> n \<le> 57) \<or> c = CHR ''+'' \<or> c = CHR ''-'' \<or> c = CHR ''.'')"

definition strip_scheme :: "string \<Rightarrow> string" where
  "strip_scheme url =
     (let pre = takeWhile (\<lambda>c. c \<noteq> CHR '':'') url in
      if CHR '':'' \<in> set url \<and> pre \<noteq> [] \<and> ascii_alpha (hd url) \<and> list_all scheme_char pre
      then drop (length pre + 1) url
      else url)"

definition splitnetloc :: "string \<Rightarrow> string" where
  "splitnetloc url =
     takeWhile (\<lambda>c. c \<noteq> CHR ''/'' \<and> c \<noteq> CHR ''?'' \<and> c \<noteq> CHR ''#'') (drop 2 url)"

definition bracketed_host :: "string \<Rightarrow> string" where
  "bracketed_host netloc =
     takeWhile (\<lambda>c. c \<noteq> CHR '']'') (drop 1 (dropWhile (\<lambda>c. c \<noteq> CHR ''['') netloc))"

definition urlparse_netloc :: "(string \<Rightarrow> bool) \<Rightarrow> string \<Rightarrow> error + string" where
  "urlparse_netloc ip_literal address =
     (let url = dropWhile (\<lambda>c. (of_char c :: nat) \<le> 32) address;
          url = filter (\<lambda>c. c \<noteq> CHR 0x09 \<and> c \<noteq> CHR 0x0D \<and> c \<noteq> CHR 0x0A) url;
          url = strip_scheme url
      in if take 2 url = ''//'' then
           (let netloc = splitnetloc url;
                opening = (CHR ''['' \<in> set netloc);
                closing = (CHR '']'' \<in> set netloc)
            in if opening \<noteq> closing then Inl ValueError
               else if opening \<and> \<not> ip_literal (bracketed_host netloc) then Inl ValueError
               else Inr netloc)
         else Inr [])"

text \<open>\<open>Blockchain.register_node\<close>.\<close>

definition register_node :: "(string \<Rightarrow> bool) \<Rightarrow> string \<Rightarrow> ledger \<Rightarrow> ledger \<times> (error + unit)" where
  "register_node ip_literal address s =
     (case urlparse_netloc ip_literal address of
        Inl e \<Rightarrow> (s, Inl e)
      | Inr netloc \<Rightarrow> (s\<lparr>nodes := insert netloc (nodes s)\<rparr>, Inr ()))"

text \<open>
  The route \<open>/mine\<close>. \<open>node_identifier\<close> is the identifier drawn when the node starts and
  \<open>now\<close> the reading of \<open>time()\<close> inside \<open>new_block\<close>. The call
  \<open>new_block(proof, previous_hash)\<close> is positional: the solved proof is bound to the
  parameter \<open>previous_hash\<close> and the hash of the last block to the parameter \<open>proof\<close>.
  \<open>None\<close> is a run whose search for a proof never ends.
\<close>

definition mine :: "pyval \<Rightarrow> string \<Rightarrow> ledger \<Rightarrow> (ledger \<times> (error + pyval)) option" where
  "mine now node_identifier s =
     (case last_block s of
        Inl e \<Rightarrow> Some (s, Inl e)
      | Inr last_blk \<Rightarrow>
          (case getitem last_blk ''proof'' of
             Inl e \<Rightarrow> Some (s, Inl e)
           | Inr last_proof \<Rightarrow>
               (case proof_of_work last_proof of
                  None \<Rightarrow> None
                | Some proof \<Rightarrow>
                    (case new_transaction (PStr ''0'') (PStr node_identifier) (PInt 1) s of
                       (s1, Inl e) \<Rightarrow> Some (s1, Inl e)
                     | (s1, Inr idx) \<Rightarrow>
                         (let previous_hash = PStr (hash last_blk) in
                          case new_block now (PInt proof) previous_hash s1 of
                            (s2, Inl e) \<Rightarrow> Some (s2, Inl e)
                          | (s2, Inr block) \<Rightarrow>
                              (case (getitem block ''index'', getitem block ''transactions'',
                                     getitem block ''proof'', getitem block ''previous_hash'') of
                                 (Inr i, Inr t, Inr p, Inr h) \<Rightarrow>
                                   Some (s2, Inr (PDict
                                     [(''message'', PStr ''New Block forged.''),
                                      (''index'', i),
                                      (''transactions'', t),
                                      (''proof'', p),
                                      (''previous_hash'', h)]))
                               | _ \<Rightarrow> Some (s2, Inl KeyError)))))))"

section \<open>Notions used in the statements\<close>

text \<open>
  The block that \<open>mine\<close> seals when the search has found the proof \<open>p\<close>, as the code
  builds it: the hash of the last block is stored under \<open>proof\<close> and the solved proof
  under \<open>previous_hash\<close>, unless it is 0.
\<close>

definition mined_block :: "pyval \<Rightarrow> string \<Rightarrow> ledger \<Rightarrow> int \<Rightarrow> pyval" where
  "mined_block now nid s p =
     PDict
       [(''index'', PInt (int (length (chain s)) + 1)),
        (''timestamp'', now),
        (''transactions'', PList (current_transactions s @
           [PDict [(''sender'', PStr ''0''), (''recipient'', PStr nid), (''amount'', PInt 1)]])),
        (''proof'', PStr (hash (last (chain s)))),
        (''previous_hash'', if p \<noteq> 0 then PInt p else PStr (hash (last (chain s))))]"

text \<open>A record from which \<open>valid_chain\<close> can read both fields it subscribes.\<close>

definition has_link_fields :: "pyval \<Rightarrow> bool" where
  "has_link_fields b = (\<not> isl (getitem b ''previous_hash'') \<and> \<not> isl (getitem b ''proof''))"

text \<open>
  The validation rule in the words of the specification: a pair \<open>(prev, cur)\<close> passes
  when \<open>cur.previous_hash\<close> is the hash of \<open>prev\<close> and the puzzle holds for
  \<open>prev.previous_hash\<close> and \<open>cur.proof\<close>; a chain is valid when every pair from index 1
  on passes.
\<close>

definition pair_valid :: "pyval \<Rightarrow> pyval \<Rightarrow> bool" where
  "pair_valid prev cur =
     (getitem cur ''previous_hash'' = Inr (PStr (hash prev)) \<and>
      (case (getitem prev ''previous_hash'', getitem cur ''proof'') of
         (Inr a, Inr b) \<Rightarrow> valid_proof a b
       | _ \<Rightarrow> False))"

definition is_valid :: "pyval list \<Rightarrow> bool" where
  "is_valid c = (\<forall>i \<in> {1..<length c}. pair_valid (c ! (i - 1)) (c ! i))"

text \<open>
  A peer that answers with status 200 and a chain that passes \<open>valid_chain\<close>.
\<close>

definition offers :: "(string \<Rightarrow> error + response) \<Rightarrow> string \<Rightarrow> response \<Rightarrow> bool" where
  "offers get node r =
     (get (chain_url node) = Inr r \<and> status_code r = 200 \<and>
      valid_chain (json_chain r) = Inr True)"

text \<open>
  The puzzle in the words of the specification: the first four characters of the
  hexadecimal digest of the two decimal numerals, written one after the other, are all
  \<open>0\<close>. \<open>int_of_decimal\<close> reads a decimal numeral back.
\<close>

definition value_of_digits :: "string \<Rightarrow> int" where
  "value_of_digits s = foldl (\<lambda>a c. 10 * a + (of_char c - 48)) 0 s"

definition int_of_decimal :: "string \<Rightarrow> int" where
  "int_of_decimal s =
     (case s of
        [] \<Rightarrow> 0
      | c # ds \<Rightarrow> if c = CHR ''-'' then - value_of_digits ds else value_of_digits s)"

definition puzzle_solved :: "int \<Rightarrow> int \<Rightarrow> bool" where
  "puzzle_solved p p' =
     (let digest = hexdigest (sha256 (encode (str_int p @ str_int p')))
      in digest ! 0 = CHR ''0'' \<and> digest ! 1 = CHR ''0'' \<and> digest ! 2 = CHR ''0'' \<and> digest ! 3 = CHR ''0'')"

text \<open>
  Two values with the same content: equal, except that the items of a dict, at any depth,
  may stand in a different order. Lists are compared in order, and values of different
  types are different (1, 1.0 and \<open>True\<close> are three values).
\<close>

function same_content :: "pyval \<Rightarrow> pyval \<Rightarrow> bool" where
  "same_content (PList xs) (PList ys) = list_all2 same_content xs ys"
| "same_content (PDict xs) (PDict ys) =
     (set (map fst xs) = set (map fst ys) \<and>
      list_all (\<lambda>kv. case map_of ys (fst kv) of
                        None \<Rightarrow> False
                      | Some w \<Rightarrow> same_content (snd kv) w) xs)"
| "same_content PNone b = (b = PNone)"
| "same_content (PBool x) b = (b = PBool x)"
| "same_content (PInt i) b = (b = PInt i)"
| "same_content (PFloat f) b = (b = PFloat f)"
| "same_content (PStr s) b = (b = PStr s)"
| "same_content (PList xs) PNone = False"
| "same_content (PList xs) (PBool x) = False"
| "same_content (PList xs) (PInt i) = False"
| "same_content (PList xs) (PFloat f) = False"
| "same_content (PList xs) (PStr s) = False"
| "same_content (PList xs) (PDict ys) = False"
| "same_content (PDict xs) PNone = False"
| "same_content (PDict xs) (PBool x) = False"
| "same_content (PDict xs) (PInt i) = False"
| "same_content (PDict xs) (PFloat f) = False"
| "same_content (PDict xs) (PStr s) = False"
| "same_content (PDict xs) (PList ys) = False"
  by pat_completeness auto

termination
proof (relation "measure (\<lambda>(a, b). size a)")
  fix xs :: "(string \<times> pyval) list" and ys :: "(string \<times> pyval) list" and kv w
  assume "kv \<in> set xs"
  then have "size (snd kv) < Suc (size_list (size_prod (\<lambda>_. 0) size) xs)"
    by (induction xs) auto
  then show "((snd kv, w), PDict xs, PDict ys) \<in> measure (\<lambda>(a, b). size a)" by simp
qed (auto simp: less_Suc_eq_le size_list_estimation')

section \<open>Example ledgers and peers\<close>

text \<open>
  A ledger whose only block has the proof \<open>x\<close>, with one pending transaction and one peer.
  The puzzle for 93711 is solved by 1 and the puzzle for 88914 by 0, which keeps the
  searches of the examples short.
\<close>

definition example_block :: "int \<Rightarrow> pyval" where
  "example_block x =
     PDict [(''index'', PInt 1), (''timestamp'', PFloat ''1543622400.5''),
            (''transactions'', PList []), (''proof'', PInt x), (''previous_hash'', PInt 1)]"

definition example_ledger :: "int \<Rightarrow> ledger" where
  "example_ledger x =
     \<lparr>chain = [example_block x],
      current_transactions =
        [PDict [(''sender'', PStr ''A''), (''recipient'', PStr ''B''), (''amount'', PInt 10)]],
      nodes = {''10.0.0.2:5000''}\<rparr>"

text \<open>Two blocks with a matching link; the second has the proof \<open>x\<close>.\<close>

definition link_example :: "int \<Rightarrow> int \<Rightarrow> int \<Rightarrow> pyval list" where
  "link_example ph pr x =
     [PDict [(''proof'', PInt pr), (''previous_hash'', PInt ph)],
      PDict [(''proof'', PInt x),
             (''previous_hash'', PStr (hash (PDict [(''proof'', PInt pr), (''previous_hash'', PInt ph)])))]]"

text \<open>
  Peers: one that reports the length 2 with the single block \<open>example_block x\<close>, one that
  reports the local length, one whose second block is an empty record, one that sends an
  empty chain, and one that cannot be reached.
\<close>

definition example_get :: "int \<Rightarrow> string \<Rightarrow> error + response" where
  "example_get x url =
     (if url = ''http://10.0.0.2:5000/chain''
      then Inr \<lparr>status_code = 200, json_length = 2, json_chain = [example_block x]\<rparr>
      else Inl ConnectionError)"

definition tie_get :: "string \<Rightarrow> error + response" where
  "tie_get url = Inr \<lparr>status_code = 200, json_length = 1, json_chain = [example_block 93711]\<rparr>"



definition unreachable :: "string \<Rightarrow> error + response" where
  "unreachable url = Inl ConnectionError"

definition example_order :: "string set \<Rightarrow> string list" where
  "example_order S = [''10.0.0.2:5000'']"

text \<open>A check of bracketed hosts that accepts none; the examples have no brackets.\<close>

definition no_ip_literal :: "string \<Rightarrow> bool" where
  "no_ip_literal host = False"



definition short_malformed_get :: "string \<Rightarrow> error + response" where
  "short_malformed_get url =
     Inr \<lparr>status_code = 200, json_length = 1, json_chain = [example_block 7, PDict []]\<rparr>"

text \<open>A block written twice, its items and those of its transaction in different orders.\<close>

definition reordered_block :: "pyval \<times> pyval" where
  "reordered_block =
     (PDict [(''index'', PInt 2), (''timestamp'', PFloat ''1543622460.25''),
             (''transactions'', PList
                [PDict [(''sender'', PStr ''A''), (''recipient'', PStr ''B''), (''amount'', PInt 10)]]),
             (''proof'', PInt 35293), (''previous_hash'', PStr ''abc'')],
      PDict [(''previous_hash'', PStr ''abc''), (''proof'', PInt 35293),
             (''transactions'', PList
                [PDict [(''amount'', PInt 10), (''recipient'', PStr ''B''), (''sender'', PStr ''A'')]]),
             (''timestamp'', PFloat ''1543622460.25''), (''index'', PInt 2)])"

section \<open>The puzzle search\<close>

lemma valid_proof_93711_0: "\<not> valid_proof (PInt 93711) (PInt 0)"
  by code_simp

lemma valid_proof_93711_1: "valid_proof (PInt 93711) (PInt 1)"
  by code_simp

lemma valid_proof_88914_0: "valid_proof (PInt 88914) (PInt 0)"
  by code_simp

lemma valid_proof_100_0: "\<not> valid_proof (PInt 100) (PInt 0)"
  by code_simp

lemma proof_of_work_93711: "proof_of_work (PInt 93711) = Some 1"
  unfolding proof_of_work_def
  apply (subst proof_of_work_from.simps)
  apply (simp add: valid_proof_93711_0)
  apply (subst proof_of_work_from.simps)
  apply (simp add: valid_proof_93711_1)
  done

lemma proof_of_work_88914: "proof_of_work (PInt 88914) = Some 0"
  unfolding proof_of_work_def
  by (subst proof_of_work_from.simps) (simp add: valid_proof_88914_0)

lemma proof_of_work_from_sound:
  "proof_of_work_from lp k = Some p \<Longrightarrow>
     valid_proof lp (PInt p) \<and> k \<le> p \<and> (\<forall>j. k \<le> j \<and> j < p \<longrightarrow> \<not> valid_proof lp (PInt j))"
proof (induction rule: proof_of_work_from.raw_induct[rotated 1, consumes 1])
  case (1 f lp k p)
  show ?case
  proof (cases "valid_proof lp (PInt k)")
    case True
    with 1(2) show ?thesis by auto
  next
    case False
    with 1(2) have "f lp (k + 1) = Some p" by simp
    from 1(1)[OF this]
    have ih: "valid_proof lp (PInt p)" "k + 1 \<le> p"
      "\<And>j. k + 1 \<le> j \<Longrightarrow> j < p \<Longrightarrow> \<not> valid_proof lp (PInt j)"
      by auto
    have "\<not> valid_proof lp (PInt j)" if "k \<le> j" "j < p" for j
    proof (cases "j = k")
      case True
      with False show ?thesis by simp
    next
      case False
      with that have "k + 1 \<le> j" by simp
      then show ?thesis using that ih(3) by simp
    qed
    with ih show ?thesis by simp
  qed
qed

section \<open>The digest\<close>

lemma length_round256: "length s = 8 \<Longrightarrow> length (round256 s kw) = 8"
proof -
  assume "length s = 8"
  then obtain a b c d e f g h where "s = [a, b, c, d, e, f, g, h]"
    by (auto simp: length_Suc_conv eval_nat_numeral)
  then show ?thesis by (cases kw) (simp add: Let_def)
qed

lemma length_foldl_round256: "length s = 8 \<Longrightarrow> length (foldl round256 s xs) = 8"
  by (induction xs arbitrary: s) (simp_all add: length_round256)

lemma length_compress: "length h = 8 \<Longrightarrow> length (compress h ws) = 8"
  by (simp add: compress_def length_foldl_round256)

lemma length_foldl_compress: "length h = 8 \<Longrightarrow> length (foldl compress h bs) = 8"
  by (induction bs arbitrary: h) (simp_all add: length_compress)

lemma length_sha256: "length (sha256 m) = 8"
  by (simp add: sha256_def Let_def length_foldl_compress H256_def)

lemma hexdigit_hex: "n < 16 \<Longrightarrow> hexdigit n \<in> set ''0123456789abcdef''"
  unfolding hexdigit_def by (rule nth_mem) simp

lemma hex32_hex: "c \<in> set (hex32 w) \<Longrightarrow> c \<in> set ''0123456789abcdef''"
proof -
  have "unat (x AND 15) < 16" for x :: u32
  proof -
    have "unat (x AND 15) \<le> unat (15 :: u32)"
      by (rule word_and_le1 [THEN word_le_nat_alt [THEN iffD1]])
    then show ?thesis by simp
  qed
  then have "hexdigit (unat (x AND 15)) \<in> set ''0123456789abcdef''" for x :: u32
    by (rule hexdigit_hex)
  moreover assume "c \<in> set (hex32 w)"
  ultimately show ?thesis unfolding hex32_def by auto
qed

lemma length_hexdigest: "length h = 8 \<Longrightarrow> length (hexdigest h) = 64"
proof -
  assume "length h = 8"
  then obtain a b c d e f g i where "h = [a, b, c, d, e, f, g, i]"
    by (auto simp: length_Suc_conv eval_nat_numeral)
  then show ?thesis by (simp add: hexdigest_def hex32_def)
qed

lemma hexdigest_hex: "c \<in> set (hexdigest h) \<Longrightarrow> c \<in> set ''0123456789abcdef''"
proof -
  assume "c \<in> set (hexdigest h)"
  then obtain w where "c \<in> set (hex32 w)"
    unfolding hexdigest_def by auto
  then show ?thesis by (rule hex32_hex)
qed

lemma length_digest: "length (hexdigest (sha256 m)) = 64"
  by (simp add: length_hexdigest length_sha256)

lemma take4_zero:
  "4 \<le> length d \<Longrightarrow>
     (take 4 d = ''0000'') =
     (d ! 0 = CHR ''0'' \<and> d ! 1 = CHR ''0'' \<and> d ! 2 = CHR ''0'' \<and> d ! 3 = CHR ''0'')"
proof -
  assume "4 \<le> length d"
  then obtain a b c e r where "d = a # b # c # e # r"
    by (cases d; cases "tl d"; cases "tl (tl d)"; cases "tl (tl (tl d))") auto
  then show ?thesis by auto
qed

section \<open>Decimal numerals\<close>

lemma digit_char_value: "0 \<le> d \<Longrightarrow> d < 10 \<Longrightarrow> of_char (digit_char d) - 48 = d"
  by (simp add: digit_char_def)

lemma value_of_digits_snoc: "value_of_digits (s @ [c]) = 10 * value_of_digits s + (of_char c - 48)"
  by (simp add: value_of_digits_def)

lemma value_of_digits10: "0 \<le> n \<Longrightarrow> value_of_digits (digits10 n) = n"
proof (induction n rule: digits10.induct)
  case (1 n)
  show ?case
  proof (cases "n < 10")
    case True
    with 1(2) show ?thesis
      by (subst digits10.simps) (simp add: value_of_digits_def digit_char_value)
  next
    case False
    with 1 have "value_of_digits (digits10 (n div 10)) = n div 10" by simp
    with False 1(2) show ?thesis
      by (subst digits10.simps) (simp add: value_of_digits_snoc digit_char_value)
  qed
qed

lemma digit_chars: "map digit_char [0, 1, 2, 3, 4, 5, 6, 7, 8, 9] = ''0123456789''"
  by code_simp

lemma digits10_digits: "0 \<le> n \<Longrightarrow> c \<in> set (digits10 n) \<Longrightarrow> c \<in> set ''0123456789''"
proof (induction n rule: digits10.induct)
  case (1 n)
  have d: "digit_char d \<in> set ''0123456789''" if "0 \<le> d" "d < 10" for d
  proof -
    from that have "d = 0 \<or> d = 1 \<or> d = 2 \<or> d = 3 \<or> d = 4 \<or> d = 5 \<or> d = 6 \<or> d = 7 \<or> d = 8 \<or> d = 9"
      by arith
    then have "digit_char d \<in> set (map digit_char [0, 1, 2, 3, 4, 5, 6, 7, 8, 9])"
      by auto
    then show ?thesis by (simp only: digit_chars)
  qed
  show ?case
  proof (cases "n < 10")
    case True
    with 1(2,3) d [of n] show ?thesis
      by (subst (asm) digits10.simps) simp
  next
    case False
    with 1(3) have "c \<in> set (digits10 (n div 10)) \<or> c = digit_char (n mod 10)"
      by (subst (asm) digits10.simps) auto
    with 1(1) [OF False] 1(2) d [of "n mod 10"] show ?thesis by auto
  qed
qed

lemma digits10_nonempty: "digits10 n \<noteq> []"
  by (subst digits10.simps) simp

lemma int_of_decimal_str_int: "int_of_decimal (str_int i) = i"
proof (cases "i < 0")
  case True
  then show ?thesis
    by (simp add: str_int_def int_of_decimal_def value_of_digits10)
next
  case False
  then have n: "0 \<le> i" by simp
  obtain c ds where cd: "digits10 i = c # ds"
    using digits10_nonempty [of i] by (cases "digits10 i") auto
  with digits10_digits [OF n, of c] have "c \<noteq> CHR ''-''" by auto
  with cd False value_of_digits10 [OF n] show ?thesis
    by (simp add: str_int_def int_of_decimal_def)
qed

section \<open>Sealing a block\<close>

lemma new_block_truthy:
  "truthy ph \<Longrightarrow> new_block now ph pr s =
     (s\<lparr>current_transactions := [], chain := chain s @ [PDict
               [(''index'', PInt (int (length (chain s)) + 1)),
                (''timestamp'', now),
                (''transactions'', PList (current_transactions s)),
                (''proof'', pr),
                (''previous_hash'', ph)]]\<rparr>,
      Inr (PDict
               [(''index'', PInt (int (length (chain s)) + 1)),
                (''timestamp'', now),
                (''transactions'', PList (current_transactions s)),
                (''proof'', pr),
                (''previous_hash'', ph)]))"
  by (simp add: new_block_def Let_def)

lemma new_block_falsy:
  "\<not> truthy ph \<Longrightarrow> chain s \<noteq> [] \<Longrightarrow> new_block now ph pr s =
     (s\<lparr>current_transactions := [], chain := chain s @ [PDict
               [(''index'', PInt (int (length (chain s)) + 1)),
                (''timestamp'', now),
                (''transactions'', PList (current_transactions s)),
                (''proof'', pr),
                (''previous_hash'', PStr (hash (last (chain s))))]]\<rparr>,
      Inr (PDict
               [(''index'', PInt (int (length (chain s)) + 1)),
                (''timestamp'', now),
                (''transactions'', PList (current_transactions s)),
                (''proof'', pr),
                (''previous_hash'', PStr (hash (last (chain s))))]))"
  by (simp add: new_block_def Let_def)

lemma new_block_falsy_empty:
  "\<not> truthy ph \<Longrightarrow> chain s = [] \<Longrightarrow> new_block now ph pr s = (s, Inl IndexError)"
  by (simp add: new_block_def)

lemma mine_returns:
  assumes "mine now nid s = Some (s', Inr resp)"
  shows "\<exists>lp p. chain s \<noteq> [] \<and> getitem (last (chain s)) ''proof'' = Inr lp \<and>
           proof_of_work lp = Some p \<and>
           s' = s\<lparr>current_transactions := [],
                  chain := chain s @ [PDict
                    [(''index'', PInt (int (length (chain s)) + 1)),
                     (''timestamp'', now),
                     (''transactions'', PList (current_transactions s @
                        [PDict [(''sender'', PStr ''0''), (''recipient'', PStr nid), (''amount'', PInt 1)]])),
                     (''proof'', PStr (hash (last (chain s)))),
                     (''previous_hash'',
                        if p \<noteq> 0 then PInt p else PStr (hash (last (chain s))))]]\<rparr>"
  using assms
  by (auto simp: mine_def last_block_def new_transaction_def new_block_def Let_def
           split: if_splits sum.splits option.splits prod.splits)

lemma mine_runs:
  assumes "chain s \<noteq> []"
    and "getitem (last (chain s)) ''proof'' = Inr lp"
    and "proof_of_work lp = Some p"
    and "getitem (last (chain s)) ''index'' = Inr i"
    and "py_add_one i = Inr n"
  shows "\<exists>s' resp. mine now nid s = Some (s', Inr resp)"
  using assms
  by (auto simp: mine_def last_block_def new_transaction_def new_block_def Let_def
           split: if_splits sum.splits option.splits prod.splits)

lemma mine_returns_block:
  assumes "mine now nid s = Some (s', Inr resp)"
  shows "\<exists>lp p. chain s \<noteq> [] \<and> getitem (last (chain s)) ''proof'' = Inr lp \<and>
           proof_of_work lp = Some p \<and> valid_proof lp (PInt p) \<and>
           chain s' = chain s @ [mined_block now nid s p] \<and> current_transactions s' = []"
proof -
  from mine_returns [OF assms] obtain lp p where
    *: "chain s \<noteq> []" "getitem (last (chain s)) ''proof'' = Inr lp" "proof_of_work lp = Some p"
    and s': "chain s' = chain s @ [mined_block now nid s p]" "current_transactions s' = []"
    unfolding mined_block_def by auto
  from *(3) have "valid_proof lp (PInt p)"
    unfolding proof_of_work_def by (blast dest: proof_of_work_from_sound)
  with * s' show ?thesis by blast
qed

lemma mined_block_fields:
  "getitem (mined_block now nid s p) ''proof'' = Inr (PStr (hash (last (chain s))))"
  "getitem (mined_block now nid s p) ''previous_hash'' =
     Inr (if p \<noteq> 0 then PInt p else PStr (hash (last (chain s))))"
  "getitem (mined_block now nid s p) ''transactions'' =
     Inr (PList (current_transactions s @
           [PDict [(''sender'', PStr ''0''), (''recipient'', PStr nid), (''amount'', PInt 1)]]))"
  by (simp_all add: mined_block_def)

lemma mine_example_93711:
  "\<exists>s' resp. mine now nid (example_ledger 93711) = Some (s', Inr resp)"
  by (rule mine_runs [where lp = "PInt 93711" and p = 1 and i = "PInt 1" and n = "Exactly 2"])
     (simp_all add: example_ledger_def example_block_def proof_of_work_93711)

lemma mine_example_88914:
  "\<exists>s' resp. mine now nid (example_ledger 88914) = Some (s', Inr resp)"
  by (rule mine_runs [where lp = "PInt 88914" and p = 0 and i = "PInt 1" and n = "Exactly 2"])
     (simp_all add: example_ledger_def example_block_def proof_of_work_88914)

section \<open>Validation\<close>

lemma valid_chain_from_step:
  "valid_chain_from a (x # rest) = Inr True \<Longrightarrow>
     getitem x ''previous_hash'' = Inr (PStr (hash a)) \<and> valid_chain_from x rest = Inr True"
  by (simp split: sum.splits if_splits)

lemma valid_chain_from_True_last:
  "valid_chain_from a (xs @ [b]) = Inr True \<Longrightarrow>
     getitem b ''previous_hash'' = Inr (PStr (hash (last (a # xs))))"
proof (induction xs arbitrary: a)
  case Nil
  then show ?case using valid_chain_from_step [of a b "[]"] by simp
next
  case (Cons x xs)
  from Cons.prems have "valid_chain_from x (xs @ [b]) = Inr True"
    using valid_chain_from_step [of a x "xs @ [b]"] by simp
  from Cons.IH [OF this] show ?case by simp
qed

lemma valid_chain_True_last:
  "xs \<noteq> [] \<Longrightarrow> valid_chain (xs @ [b]) = Inr True \<Longrightarrow>
     getitem b ''previous_hash'' = Inr (PStr (hash (last xs)))"
  by (cases xs) (auto simp: valid_chain_def dest: valid_chain_from_True_last)

lemma valid_chain_from_pairs:
  "has_link_fields a \<Longrightarrow> list_all has_link_fields rest \<Longrightarrow>
     valid_chain_from a rest = Inr (\<forall>i < length rest. pair_valid ((a # rest) ! i) (rest ! i))"
proof (induction rest arbitrary: a)
  case Nil
  then show ?case by simp
next
  case (Cons b rest)
  from Cons.prems have hb: "has_link_fields b" and hr: "list_all has_link_fields rest" by simp_all
  note ih = Cons.IH [OF hb hr]
  from Cons.prems(1) hb obtain x y z where
    f: "getitem a ''previous_hash'' = Inr x" "getitem b ''previous_hash'' = Inr y"
       "getitem b ''proof'' = Inr z"
    unfolding has_link_fields_def by (metis isl_def sum.collapse(2))
  have all: "(\<forall>i < length (b # rest). pair_valid ((a # b # rest) ! i) ((b # rest) ! i)) =
        (pair_valid a b \<and> (\<forall>i < length rest. pair_valid ((b # rest) ! i) (rest ! i)))"
    by (auto simp: less_Suc_eq_0_disj)
  show ?case
    unfolding all using f ih by (simp add: pair_valid_def)
qed

lemma is_valid_Cons:
  "is_valid (a # rest) = (\<forall>i < length rest. pair_valid ((a # rest) ! i) (rest ! i))"
proof -
  have "(\<forall>i \<in> {1..<Suc (length rest)}. pair_valid ((a # rest) ! (i - 1)) ((a # rest) ! i)) =
        (\<forall>i < length rest. pair_valid ((a # rest) ! i) (rest ! i))"
  proof (intro iffI allI impI ballI)
    fix i assume h: "\<forall>i \<in> {1..<Suc (length rest)}. pair_valid ((a # rest) ! (i - 1)) ((a # rest) ! i)"
      and "i < length rest"
    then have "Suc i \<in> {1..<Suc (length rest)}" by simp
    from h [rule_format, OF this] show "pair_valid ((a # rest) ! i) (rest ! i)" by simp
  next
    fix i assume h: "\<forall>i < length rest. pair_valid ((a # rest) ! i) (rest ! i)"
      and i: "i \<in> {1..<Suc (length rest)}"
    then obtain j where j: "i = Suc j" "j < length rest"
      by (cases i) auto
    from h [rule_format, OF j(2)] j show "pair_valid ((a # rest) ! (i - 1)) ((a # rest) ! i)"
      by simp
  qed
  then show ?thesis by (simp add: is_valid_def)
qed

lemma valid_chain_from_False_append:
  "valid_chain_from a xs = Inr False \<Longrightarrow> valid_chain_from a (xs @ ys) = Inr False"
  by (induction xs arbitrary: a) (simp_all split: sum.splits if_splits)

lemma valid_chain_pair_True:
  "valid_chain [a, b] = Inr True \<Longrightarrow>
     getitem b ''previous_hash'' = Inr (PStr (hash a)) \<and>
     (\<exists>x y. getitem a ''previous_hash'' = Inr x \<and> getitem b ''proof'' = Inr y \<and> valid_proof x y)"
  by (simp add: valid_chain_def split: sum.splits if_splits)

lemma valid_chain_nonempty: "valid_chain c = Inr ok \<Longrightarrow> c \<noteq> []"
  by (auto simp: valid_chain_def)



lemma valid_chain_link_example_good: "valid_chain (link_example 93711 88914 1) = Inr True"
  by (simp add: link_example_def valid_chain_def valid_proof_93711_1)

lemma valid_chain_link_example_bad: "valid_chain (link_example 93711 88914 0) = Inr False"
  by (simp add: link_example_def valid_chain_def valid_proof_93711_0)

section \<open>Resolution\<close>

lemma resolve_loop_result:
  "resolve_loop get ns acc m = Inr res \<Longrightarrow>
     (res = acc \<and>
        (\<forall>node \<in> set ns. \<forall>r. get (chain_url node) = Inr r \<and> status_code r = 200 \<and>
            m < json_length r \<longrightarrow> valid_chain (json_chain r) = Inr False))
     \<or> (\<exists>node \<in> set ns. \<exists>r. offers get node r \<and> m < json_length r \<and> res = Some (json_chain r) \<and>
            (\<forall>node' \<in> set ns. \<forall>r'. offers get node' r' \<longrightarrow> json_length r' \<le> json_length r))"
proof (induction ns arbitrary: acc m)
  case Nil
  then show ?case by simp
next
  case (Cons node rest)
  from Cons.prems obtain r where g: "get (chain_url node) = Inr r"
    by (auto split: sum.splits)
  have own: "offers get node r' \<Longrightarrow> r' = r" for r'
    using g by (simp add: offers_def)
  consider (skip) "status_code r \<noteq> 200 \<or> \<not> m < json_length r"
    | (bad) "status_code r = 200" "m < json_length r" "valid_chain (json_chain r) = Inr False"
    | (good) "status_code r = 200" "m < json_length r" "valid_chain (json_chain r) = Inr True"
    using Cons.prems g by (auto split: sum.splits if_splits)
  then show ?case
  proof cases
    case skip
    with Cons.prems g have "resolve_loop get rest acc m = Inr res"
      by (auto split: if_splits)
    from Cons.IH [OF this] show ?thesis
    proof (elim disjE conjE bexE exE)
      assume "res = acc"
        and "\<forall>node \<in> set rest. \<forall>r. get (chain_url node) = Inr r \<and>
               status_code r = 200 \<and> m < json_length r \<longrightarrow> valid_chain (json_chain r) = Inr False"
      with skip g show ?thesis by (intro disjI1) auto
    next
      fix node' r'
      assume *: "node' \<in> set rest" "offers get node' r'" "m < json_length r'" "res = Some (json_chain r')"
        and mx: "\<forall>n \<in> set rest. \<forall>q. offers get n q \<longrightarrow> json_length q \<le> json_length r'"
      have "json_length q \<le> json_length r'" if "offers get node q" for q
        using own [OF that] that skip * by (auto simp: offers_def)
      with mx have "\<forall>n \<in> set (node # rest). \<forall>q. offers get n q \<longrightarrow> json_length q \<le> json_length r'"
        by simp
      with * have "\<exists>n \<in> set (node # rest). \<exists>q. offers get n q \<and> m < json_length q \<and>
          res = Some (json_chain q) \<and>
          (\<forall>n' \<in> set (node # rest). \<forall>q'. offers get n' q' \<longrightarrow> json_length q' \<le> json_length q)"
        by (intro bexI [of _ node'] exI [of _ r']) simp_all
      then show ?thesis by (rule disjI2)
    qed
  next
    case bad
    with Cons.prems g have "resolve_loop get rest acc m = Inr res"
      by simp
    from Cons.IH [OF this] show ?thesis
    proof (elim disjE conjE bexE exE)
      assume "res = acc"
        and "\<forall>node \<in> set rest. \<forall>r. get (chain_url node) = Inr r \<and>
               status_code r = 200 \<and> m < json_length r \<longrightarrow> valid_chain (json_chain r) = Inr False"
      with bad g show ?thesis by (intro disjI1) auto
    next
      fix node' r'
      assume *: "node' \<in> set rest" "offers get node' r'" "m < json_length r'" "res = Some (json_chain r')"
        and mx: "\<forall>n \<in> set rest. \<forall>q. offers get n q \<longrightarrow> json_length q \<le> json_length r'"
      have "json_length q \<le> json_length r'" if "offers get node q" for q
        using own [OF that] that bad by (simp add: offers_def)
      with mx have "\<forall>n \<in> set (node # rest). \<forall>q. offers get n q \<longrightarrow> json_length q \<le> json_length r'"
        by simp
      with * have "\<exists>n \<in> set (node # rest). \<exists>q. offers get n q \<and> m < json_length q \<and>
          res = Some (json_chain q) \<and>
          (\<forall>n' \<in> set (node # rest). \<forall>q'. offers get n' q' \<longrightarrow> json_length q' \<le> json_length q)"
        by (intro bexI [of _ node'] exI [of _ r']) simp_all
      then show ?thesis by (rule disjI2)
    qed
  next
    case good
    then have o: "offers get node r" using g by (simp add: offers_def)
    from good Cons.prems g
    have "resolve_loop get rest (Some (json_chain r)) (json_length r) = Inr res"
      by simp
    from Cons.IH [OF this] show ?thesis
    proof (elim disjE conjE bexE exE)
      assume res: "res = Some (json_chain r)"
        and nb: "\<forall>node \<in> set rest. \<forall>q. get (chain_url node) = Inr q \<and>
               status_code q = 200 \<and> json_length r < json_length q \<longrightarrow>
               valid_chain (json_chain q) = Inr False"
      have "json_length q \<le> json_length r" if "n \<in> set (node # rest)" "offers get n q" for n q
      proof (cases "n = node")
        case True
        with that own show ?thesis by auto
      next
        case False
        with that have "n \<in> set rest" by simp
        with nb that(2) show ?thesis
          by (fastforce simp: offers_def)
      qed
      then have "\<forall>n \<in> set (node # rest). \<forall>q. offers get n q \<longrightarrow> json_length q \<le> json_length r"
        by blast
      with o good res have "\<exists>n \<in> set (node # rest). \<exists>q. offers get n q \<and> m < json_length q \<and>
          res = Some (json_chain q) \<and>
          (\<forall>n' \<in> set (node # rest). \<forall>q'. offers get n' q' \<longrightarrow> json_length q' \<le> json_length q)"
        by (intro bexI [of _ node] exI [of _ r]) simp_all
      then show ?thesis by (rule disjI2)
    next
      fix node' r'
      assume *: "node' \<in> set rest" "offers get node' r'" "json_length r < json_length r'"
          "res = Some (json_chain r')"
        and mx: "\<forall>n \<in> set rest. \<forall>q. offers get n q \<longrightarrow> json_length q \<le> json_length r'"
      have "json_length q \<le> json_length r'" if "offers get node q" for q
        using own [OF that] * by simp
      with mx have "\<forall>n \<in> set (node # rest). \<forall>q. offers get n q \<longrightarrow> json_length q \<le> json_length r'"
        by simp
      moreover from * good have "m < json_length r'" by simp
      ultimately have "\<exists>n \<in> set (node # rest). \<exists>q. offers get n q \<and> m < json_length q \<and>
          res = Some (json_chain q) \<and>
          (\<forall>n' \<in> set (node # rest). \<forall>q'. offers get n' q' \<longrightarrow> json_length q' \<le> json_length q)"
        using * by (intro bexI [of _ node'] exI [of _ r']) simp_all
      then show ?thesis by (rule disjI2)
    qed
  qed
qed




lemma resolve_example_replaces:
  "resolve_conflicts (example_get x) example_order (example_ledger 7) =
     ((example_ledger 7)\<lparr>chain := [example_block x]\<rparr>, Inr True)"
  by (simp add: resolve_conflicts_def example_get_def example_order_def example_ledger_def
        chain_url_def valid_chain_def)

lemma resolve_example_tie:
  "resolve_conflicts tie_get example_order (example_ledger 7) = (example_ledger 7, Inr False)"
  by (simp add: resolve_conflicts_def tie_get_def example_order_def example_ledger_def)

lemma resolve_example_unreachable:
  "resolve_conflicts unreachable example_order (example_ledger 7) = (example_ledger 7, Inl ConnectionError)"
  by (simp add: resolve_conflicts_def unreachable_def example_order_def example_ledger_def)

lemma resolve_example_elsewhere:
  "resolve_conflicts (example_get 7) (\<lambda>S. [''10.0.0.3:5000'']) (example_ledger 7) =
     (example_ledger 7, Inl ConnectionError)"
  by (simp add: resolve_conflicts_def example_get_def example_ledger_def chain_url_def)









lemma resolve_example_short_malformed:
  "resolve_conflicts short_malformed_get example_order (example_ledger 7) =
     (example_ledger 7, Inr False)"
  by (simp add: resolve_conflicts_def short_malformed_get_def example_order_def example_ledger_def)

section \<open>Registration\<close>

lemma urlparse_netloc_no_slash:
  assumes "CHR ''/'' \<notin> set address"
  shows "urlparse_netloc ip address = Inr []"
proof -
  define url where "url = strip_scheme
    (filter (\<lambda>c. c \<noteq> CHR 0x09 \<and> c \<noteq> CHR 0x0D \<and> c \<noteq> CHR 0x0A)
       (dropWhile (\<lambda>c. (of_char c :: nat) \<le> 32) address))"
  have "CHR ''/'' \<notin> set (filter (\<lambda>c. c \<noteq> CHR 0x09 \<and> c \<noteq> CHR 0x0D \<and> c \<noteq> CHR 0x0A)
       (dropWhile (\<lambda>c. (of_char c :: nat) \<le> 32) address))"
    using assms by (auto dest: set_dropWhileD)
  then have "CHR ''/'' \<notin> set url"
    unfolding url_def by (auto simp: strip_scheme_def Let_def dest: in_set_dropD)
  then have "take 2 url \<noteq> ''//''"
    by (cases url; cases "tl url") auto
  then show ?thesis
    unfolding url_def by (simp add: urlparse_netloc_def Let_def)
qed

lemma urlparse_example: "urlparse_netloc ip ''http://192.168.0.5:5000'' = Inr ''192.168.0.5:5000''"
  by (simp add: urlparse_netloc_def strip_scheme_def splitnetloc_def ascii_alpha_def
        scheme_char_def Let_def)

lemma urlparse_bracket: "urlparse_netloc ip ''//['' = Inl ValueError"
  by (simp add: urlparse_netloc_def strip_scheme_def splitnetloc_def ascii_alpha_def
        scheme_char_def Let_def)

lemma example_ledger_reachable:
  "\<exists>s0 s1 s2.
     Blockchain_init (PFloat ''1543622300.0'') = Inr s0
   \<and> register_node ip ''http://10.0.0.2:5000'' s0 = (s1, Inr ())
   \<and> resolve_conflicts (example_get x) (\<lambda>S. [''10.0.0.2:5000'']) s1 = (s2, Inr True)
   \<and> new_transaction (PStr ''A'') (PStr ''B'') (PInt 10) s2 = (example_ledger x, Inr (Exactly 2))"
  by (simp add: Blockchain_init_def new_block_truthy register_node_def urlparse_netloc_def
        strip_scheme_def splitnetloc_def ascii_alpha_def scheme_char_def Let_def
        resolve_conflicts_def example_get_def valid_chain_def new_transaction_def
        last_block_def example_ledger_def example_block_def chain_url_def)

section \<open>The hash of a block\<close>

lemma sort_key_fst_related:
  assumes dx: "distinct (map fst xs)" and dy: "distinct (map fst ys)"
    and keys: "set (map fst xs) = set (map fst ys)"
  shows "sort_key fst ys = map (\<lambda>kv. (fst kv, the (map_of ys (fst kv)))) (sort_key fst xs)"
proof (rule sort_key_inj_key_eq)
  let ?g = "\<lambda>kv. (fst kv, the (map_of ys (fst kv)))"
  let ?zs = "map ?g (sort_key fst xs)"
  have fst_zs: "map fst ?zs = map fst (sort_key fst xs)"
    by (simp add: comp_def)
  from dx have ix: "distinct xs" "inj_on fst (set xs)" by (simp_all add: distinct_map)
  from dy have iy: "distinct ys" "inj_on fst (set ys)" by (simp_all add: distinct_map)
  show "inj_on fst (set ys)" by (rule iy)
  show "sorted (map fst ?zs)" by (simp only: fst_zs sorted_sort_key)
  have "distinct (map fst (sort_key fst xs))"
    using ix by (simp add: distinct_map)
  then have "distinct (map fst ?zs)" by (simp only: fst_zs)
  then have dz: "distinct ?zs" by (simp only: distinct_map)
  have "set ?zs = set ys"
  proof (intro set_eqI iffI)
    fix p assume "p \<in> set ?zs"
    then obtain kv where kv: "kv \<in> set xs" and p: "p = (fst kv, the (map_of ys (fst kv)))"
      by auto
    from kv keys have "fst kv \<in> fst ` set ys" by force
    then obtain w where "(fst kv, w) \<in> set ys" by force
    with dy have "map_of ys (fst kv) = Some w" by simp
    with \<open>(fst kv, w) \<in> set ys\<close> p show "p \<in> set ys" by simp
  next
    fix p assume py: "p \<in> set ys"
    with dy have m: "map_of ys (fst p) = Some (snd p)" by simp
    from py keys have "fst p \<in> fst ` set xs" by force
    then obtain kv where kv: "kv \<in> set xs" "fst kv = fst p" by force
    then have "?g kv = p" using m by simp
    with kv(1) show "p \<in> set ?zs" by force
  qed
  then have "set ys = set ?zs" by (rule sym)
  with iy(1) dz show "mset ys = mset ?zs"
    by (simp only: set_eq_iff_mset_eq_distinct)
qed

lemma map_dumps_same:
  assumes "list_all2 same_content xs ys"
    and "list_all wf_pyval xs" and "list_all wf_pyval ys"
    and "\<And>x y. x \<in> set xs \<Longrightarrow> wf_pyval x \<Longrightarrow> wf_pyval y \<Longrightarrow> same_content x y \<Longrightarrow> dumps x = dumps y"
  shows "map dumps xs = map dumps ys"
  using assms by (induction xs ys rule: list_all2_induct) auto

lemma dumps_same_content:
  "wf_pyval a \<Longrightarrow> wf_pyval b \<Longrightarrow> same_content a b \<Longrightarrow> dumps a = dumps b"
proof (induction a arbitrary: b)
  case (PList xs)
  from PList.prems(3) obtain ys where b: "b = PList ys"
    by (cases b) simp_all
  with PList.prems have "list_all2 same_content xs ys" "list_all wf_pyval xs" "list_all wf_pyval ys"
    by simp_all
  then have "map dumps xs = map dumps ys"
    using PList.IH by (rule map_dumps_same)
  with b show ?case by simp
next
  case (PDict xs)
  from PDict.prems(3) obtain ys where b: "b = PDict ys"
    by (cases b) simp_all
  with PDict.prems have dx: "distinct (map fst xs)" and dy: "distinct (map fst ys)"
    and wx: "list_all (\<lambda>kv. wf_pyval (snd kv)) xs" and wy: "list_all (\<lambda>kv. wf_pyval (snd kv)) ys"
    and keys: "set (map fst xs) = set (map fst ys)"
    and same: "list_all (\<lambda>kv. case map_of ys (fst kv) of
                        None \<Rightarrow> False
                      | Some w \<Rightarrow> same_content (snd kv) w) xs"
    by simp_all
  let ?item = "\<lambda>kv. json_str (fst kv) @ '': '' @ dumps (snd kv)"
  let ?g = "\<lambda>kv. (fst kv, the (map_of ys (fst kv)))"
  have item: "?item (?g kv) = ?item kv" if kv: "kv \<in> set xs" for kv
  proof -
    from same kv obtain w where w: "map_of ys (fst kv) = Some w" "same_content (snd kv) w"
      by (auto simp: list_all_iff split: option.splits)
    from w(1) have "(fst kv, w) \<in> set ys" by (rule map_of_SomeD)
    with wy have "wf_pyval w" by (auto simp: list_all_iff)
    moreover from wx kv have "wf_pyval (snd kv)" by (simp add: list_all_iff)
    moreover have "snd kv \<in> Basic_BNFs.snds kv" by (cases kv) simp
    ultimately have "dumps (snd kv) = dumps w"
      using PDict.IH [OF kv] w(2) by blast
    with w(1) show ?thesis by simp
  qed
  have "map ?item (sort_key fst ys) = map ?item (map ?g (sort_key fst xs))"
    by (simp only: sort_key_fst_related [OF dx dy keys])
  also have "\<dots> = map (\<lambda>kv. ?item (?g kv)) (sort_key fst xs)"
    by (simp add: comp_def)
  also have "\<dots> = map ?item (sort_key fst xs)"
  proof (rule map_cong [OF refl])
    fix kv assume "kv \<in> set (sort_key fst xs)"
    then have "kv \<in> set xs" by simp
    then show "?item (?g kv) = ?item kv" by (rule item)
  qed
  finally show ?case using b by simp
qed (auto)

lemma dumps_permuted:
  assumes "distinct (map fst kvs)" and "mset kvs' = mset kvs"
  shows "dumps (PDict kvs') = dumps (PDict kvs)"
proof -
  from assms(1) have "inj_on fst (set kvs)" by (simp only: distinct_map)
  moreover from assms(2) have "set kvs' = set kvs" by (rule mset_eq_setD)
  ultimately have "inj_on fst (set kvs')" by (simp only:)
  with assms(2) have "sort_key fst kvs' = sort_key fst kvs"
    by (rule sort_key_eq_sort_key)
  then show ?thesis by (simp only: dumps.simps)
qed

lemma hash_hex: "length (hash a) = 64 \<and> list_all (\<lambda>c. c \<in> set ''0123456789abcdef'') (hash a)"
proof -
  have "list_all (\<lambda>c. c \<in> set ''0123456789abcdef'') (hexdigest h)" for h
    unfolding list_all_iff using hexdigest_hex by blast
  then show ?thesis
    unfolding hash_def Let_def using length_digest by blast
qed

lemma reordered_block_same:
  "wf_pyval (fst reordered_block) \<and> wf_pyval (snd reordered_block)
   \<and> same_content (fst reordered_block) (snd reordered_block)
   \<and> fst reordered_block \<noteq> snd reordered_block"
  by (auto simp: reordered_block_def)

section \<open>Claims\<close>

text \<open>
  C1. The link invariant, \<open>chain[i].previous_hash == hash(chain[i-1])\<close> for every block
  sealed by the ledger, does not hold for blocks sealed through \<open>mine\<close>: \<open>mine\<close> computes
  the hash of the last block and hands it to \<open>new_block\<close> in the position of \<open>proof\<close>.
  Whenever 0 does not solve the puzzle for the proof of the last block, a run of \<open>mine\<close>
  that returns has appended a block whose \<open>previous_hash\<close> differs from the hash of its
  predecessor, and \<open>valid_chain\<close> does not accept the resulting chain. The genesis proof
  100 is such a proof.
\<close>

theorem mine_breaks_link:
  assumes "mine now nid s = Some (s', Inr resp)"
    and "getitem (last (chain s)) ''proof'' = Inr lp"
    and "\<not> valid_proof lp (PInt 0)"
  shows "length (chain s') = length (chain s) + 1
       \<and> 0 < length (chain s)
       \<and> getitem (chain s' ! length (chain s)) ''previous_hash'' \<noteq>
           Inr (PStr (hash (chain s' ! (length (chain s) - 1))))
       \<and> valid_chain (chain s') \<noteq> Inr True"
proof -
  from mine_returns_block [OF assms(1)] assms(2) obtain p where
    ne: "chain s \<noteq> []" and vp: "valid_proof lp (PInt p)" and
    c: "chain s' = chain s @ [mined_block now nid s p]"
    by auto
  from vp assms(3) have p: "p \<noteq> 0" by auto
  have ph: "getitem (mined_block now nid s p) ''previous_hash'' = Inr (PInt p)"
    using p by (simp add: mined_block_fields)
  have "valid_chain (chain s') \<noteq> Inr True"
  proof
    assume "valid_chain (chain s') = Inr True"
    then have "valid_chain (chain s @ [mined_block now nid s p]) = Inr True"
      by (simp only: c)
    from valid_chain_True_last [OF ne this] ph show False by simp
  qed
  moreover have "chain s' ! length (chain s) = mined_block now nid s p"
    by (simp add: c)
  moreover have "chain s' ! (length (chain s) - 1) = last (chain s)"
    using ne by (simp add: c nth_append last_conv_nth)
  moreover have "length (chain s') = length (chain s) + 1"
    by (simp add: c)
  ultimately show ?thesis using ne ph by simp
qed

theorem mine_breaks_link_witness:
  "\<exists>s' resp. mine (PFloat ''1543622460.25'') ''9f3c'' (example_ledger 93711) = Some (s', Inr resp)
     \<and> getitem (last (chain (example_ledger 93711))) ''proof'' = Inr (PInt 93711)
     \<and> \<not> valid_proof (PInt 93711) (PInt 0)
     \<and> length (chain s') = 2
     \<and> getitem (chain s' ! 1) ''previous_hash'' \<noteq> Inr (PStr (hash (chain s' ! 0)))
     \<and> valid_chain (chain s') \<noteq> Inr True
     \<and> (\<exists>s0. Blockchain_init (PFloat ''1543622300.0'') = Inr s0
           \<and> getitem (last (chain s0)) ''proof'' = Inr (PInt 100)
           \<and> \<not> valid_proof (PInt 100) (PInt 0))"
proof -
  obtain s' resp where
    m: "mine (PFloat ''1543622460.25'') ''9f3c'' (example_ledger 93711) = Some (s', Inr resp)"
    using mine_example_93711 by blast
  have g: "getitem (last (chain (example_ledger 93711))) ''proof'' = Inr (PInt 93711)"
    by (simp add: example_ledger_def example_block_def)
  have l: "length (chain (example_ledger 93711)) = 1"
    by (simp add: example_ledger_def)
  from mine_breaks_link [OF m g valid_proof_93711_0]
  have "length (chain s') = 2
     \<and> getitem (chain s' ! 1) ''previous_hash'' \<noteq> Inr (PStr (hash (chain s' ! 0)))
     \<and> valid_chain (chain s') \<noteq> Inr True"
    by (simp add: l)
  moreover have "\<exists>s0. Blockchain_init (PFloat ''1543622300.0'') = Inr s0
           \<and> getitem (last (chain s0)) ''proof'' = Inr (PInt 100)
           \<and> \<not> valid_proof (PInt 100) (PInt 0)"
    by (simp add: Blockchain_init_def new_block_truthy valid_proof_100_0)
  ultimately show ?thesis using m g valid_proof_93711_0 by blast
qed

text \<open>
  C2, amended. When a call of \<open>mine\<close> returns, the block it has appended has the hash of
  the former last block in its field \<open>proof\<close>; its field \<open>previous_hash\<close> is the newly
  solved proof when that proof is not 0, and the hash of the former last block when the
  solved proof is 0. The solved proof is the result of \<open>proof_of_work\<close> on the proof of
  the former last block and solves the puzzle for it.
\<close>

theorem mine_seals_swapped_fields:
  assumes "mine now nid s = Some (s', Inr resp)"
  shows "\<exists>lp p. getitem (last (chain s)) ''proof'' = Inr lp
           \<and> proof_of_work lp = Some p
           \<and> valid_proof lp (PInt p)
           \<and> getitem (last (chain s')) ''proof'' = Inr (PStr (hash (last (chain s))))
           \<and> getitem (last (chain s')) ''previous_hash'' =
               Inr (if p = 0 then PStr (hash (last (chain s))) else PInt p)"
proof -
  from mine_returns_block [OF assms] obtain lp p where
    *: "getitem (last (chain s)) ''proof'' = Inr lp" "proof_of_work lp = Some p"
       "valid_proof lp (PInt p)" and
    c: "chain s' = chain s @ [mined_block now nid s p]"
    by auto
  have "last (chain s') = mined_block now nid s p" by (simp add: c)
  then have "getitem (last (chain s')) ''proof'' = Inr (PStr (hash (last (chain s))))"
    and "getitem (last (chain s')) ''previous_hash'' =
               Inr (if p = 0 then PStr (hash (last (chain s))) else PInt p)"
    by (simp_all add: mined_block_fields)
  with * show ?thesis by blast
qed

theorem mine_seals_swapped_fields_witness:
  "\<exists>s' resp. mine (PFloat ''1543622460.25'') ''9f3c'' (example_ledger 93711) = Some (s', Inr resp)
     \<and> proof_of_work (PInt 93711) = Some 1
     \<and> getitem (last (chain s')) ''proof'' = Inr (PStr (hash (example_block 93711)))
     \<and> getitem (last (chain s')) ''previous_hash'' = Inr (PInt 1)"
proof -
  obtain s' resp where
    m: "mine (PFloat ''1543622460.25'') ''9f3c'' (example_ledger 93711) = Some (s', Inr resp)"
    using mine_example_93711 by blast
  have g: "getitem (last (chain (example_ledger 93711))) ''proof'' = Inr (PInt 93711)"
    and l: "last (chain (example_ledger 93711)) = example_block 93711"
    by (simp_all add: example_ledger_def example_block_def)
  from mine_seals_swapped_fields [OF m] obtain lp p where
    *: "getitem (last (chain (example_ledger 93711))) ''proof'' = Inr lp"
       "proof_of_work lp = Some p"
       "getitem (last (chain s')) ''proof'' = Inr (PStr (hash (last (chain (example_ledger 93711)))))"
       "getitem (last (chain s')) ''previous_hash'' =
          Inr (if p = 0 then PStr (hash (last (chain (example_ledger 93711)))) else PInt p)"
    by blast
  from *(1) g have "lp = PInt 93711" by simp
  with *(2) proof_of_work_93711 have "p = 1" by simp
  with * l m proof_of_work_93711 show ?thesis by simp
qed

text \<open>
  C2 as stated fails when the search returns 0: on a ledger whose last block has the
  proof 88914 the solved proof is 0, and the sealed block's \<open>previous_hash\<close> is the hash
  of the last block, not the integer 0.
\<close>

theorem mine_zero_proof_counterexample:
  "proof_of_work (PInt 88914) = Some 0
   \<and> (\<exists>s' resp. mine (PFloat ''1543622460.25'') ''9f3c'' (example_ledger 88914) = Some (s', Inr resp)
        \<and> getitem (last (chain s')) ''previous_hash'' = Inr (PStr (hash (example_block 88914)))
        \<and> getitem (last (chain s')) ''previous_hash'' \<noteq> Inr (PInt 0))"
proof -
  obtain s' resp where
    m: "mine (PFloat ''1543622460.25'') ''9f3c'' (example_ledger 88914) = Some (s', Inr resp)"
    using mine_example_88914 by blast
  have g: "getitem (last (chain (example_ledger 88914))) ''proof'' = Inr (PInt 88914)"
    and l: "last (chain (example_ledger 88914)) = example_block 88914"
    by (simp_all add: example_ledger_def example_block_def)
  from mine_returns_block [OF m] obtain lp p where
    *: "getitem (last (chain (example_ledger 88914))) ''proof'' = Inr lp"
       "proof_of_work lp = Some p"
       "chain s' = chain (example_ledger 88914) @
          [mined_block (PFloat ''1543622460.25'') ''9f3c'' (example_ledger 88914) p]"
    by blast
  from *(1) g have "lp = PInt 88914" by simp
  with *(2) proof_of_work_88914 have "p = 0" by simp
  with *(3) l have "getitem (last (chain s')) ''previous_hash'' = Inr (PStr (hash (example_block 88914)))"
    by (simp add: mined_block_fields)
  with m proof_of_work_88914 show ?thesis by auto
qed

text \<open>
  C3, amended. On a non-empty chain of records that carry \<open>previous_hash\<close> and \<open>proof\<close>,
  \<open>valid_chain\<close> returns whether every pair \<open>(prev, cur)\<close> from index 1 on has
  \<open>cur.previous_hash\<close> equal to the hash of \<open>prev\<close> and satisfies the puzzle for
  \<open>prev.previous_hash\<close> and \<open>cur.proof\<close>. It stops at the first pair that fails: a chain
  found invalid stays invalid whatever follows it. A chain of two blocks is accepted only
  with the puzzle solved for the first block's \<open>previous_hash\<close>, and a chain of one block
  is always valid. The strings of this development can all be encoded: a
  \<open>previous_hash\<close> or \<open>proof\<close> that is a string with a lone surrogate, on which the
  source raises \<open>UnicodeEncodeError\<close>, is not covered.
\<close>

theorem valid_chain_walks_pairs:
  "(c \<noteq> [] \<and> list_all has_link_fields c \<longrightarrow> valid_chain c = Inr (is_valid c))
   \<and> (valid_chain c = Inr False \<longrightarrow> valid_chain (c @ extra) = Inr False)
   \<and> (valid_chain [a, b] = Inr True \<longrightarrow>
        getitem b ''previous_hash'' = Inr (PStr (hash a)) \<and>
        (\<exists>x y. getitem a ''previous_hash'' = Inr x \<and> getitem b ''proof'' = Inr y \<and> valid_proof x y))
   \<and> valid_chain [b] = Inr True"
proof (intro conjI impI)
  assume "c \<noteq> [] \<and> list_all has_link_fields c"
  then obtain a rest where c: "c = a # rest" and "has_link_fields a" "list_all has_link_fields rest"
    by (cases c) auto
  then show "valid_chain c = Inr (is_valid c)"
    by (simp add: valid_chain_def valid_chain_from_pairs is_valid_Cons)
next
  assume "valid_chain c = Inr False"
  then show "valid_chain (c @ extra) = Inr False"
    by (cases c) (simp_all add: valid_chain_def valid_chain_from_False_append)
next
  assume "valid_chain [a, b] = Inr True"
  then show "getitem b ''previous_hash'' = Inr (PStr (hash a))"
    and "\<exists>x y. getitem a ''previous_hash'' = Inr x \<and> getitem b ''proof'' = Inr y \<and> valid_proof x y"
    using valid_chain_pair_True by blast+
next
  show "valid_chain [b] = Inr True" by (simp add: valid_chain_def)
qed

theorem valid_chain_walks_pairs_witness:
  "link_example 93711 88914 1 \<noteq> [] \<and> list_all has_link_fields (link_example 93711 88914 1)
   \<and> valid_chain (link_example 93711 88914 1) = Inr (is_valid (link_example 93711 88914 1))
   \<and> is_valid (link_example 93711 88914 1)
   \<and> valid_chain (link_example 93711 88914 0) = Inr False
   \<and> valid_proof (PInt 88914) (PInt 0)
   \<and> valid_chain (link_example 93711 88914 0 @ [PNone]) = Inr False
   \<and> valid_chain [PDict [(''proof'', PInt 88914), (''previous_hash'', PInt 93711)],
                   PDict [(''proof'', PInt 1),
                     (''previous_hash'', PStr (hash (PDict [(''proof'', PInt 88914), (''previous_hash'', PInt 93711)])))]]
       = Inr True
   \<and> valid_proof (PInt 93711) (PInt 1)"
proof -
  have h: "link_example 93711 88914 1 \<noteq> [] \<and> list_all has_link_fields (link_example 93711 88914 1)"
    by (simp add: link_example_def has_link_fields_def)
  from valid_chain_walks_pairs [of "link_example 93711 88914 1"] h
  have e: "valid_chain (link_example 93711 88914 1) = Inr (is_valid (link_example 93711 88914 1))"
    by blast
  with valid_chain_link_example_good have v: "is_valid (link_example 93711 88914 1)" by simp
  from valid_chain_walks_pairs [of "link_example 93711 88914 0" "[PNone]"] valid_chain_link_example_bad
  have f: "valid_chain (link_example 93711 88914 0 @ [PNone]) = Inr False" by blast
  have t: "valid_chain [PDict [(''proof'', PInt 88914), (''previous_hash'', PInt 93711)],
                   PDict [(''proof'', PInt 1),
                     (''previous_hash'', PStr (hash (PDict [(''proof'', PInt 88914), (''previous_hash'', PInt 93711)])))]]
       = Inr True"
    using valid_chain_link_example_good by (simp add: link_example_def)
  from h e v f t valid_chain_link_example_bad valid_proof_88914_0 valid_proof_93711_1
  show ?thesis by blast
qed

text \<open>
  C3 as stated fails on a chain with a record that has no \<open>previous_hash\<close>: \<open>valid_chain\<close>
  raises \<open>KeyError\<close> and returns neither true nor false.
\<close>

theorem valid_chain_raises_counterexample:
  "valid_chain [example_block 7, PDict [(''proof'', PInt 1)]] = Inl KeyError
   \<and> valid_chain [example_block 7, PDict [(''proof'', PInt 1)]] \<noteq> Inr True
   \<and> valid_chain [example_block 7, PDict [(''proof'', PInt 1)]] \<noteq> Inr False"
  by (simp add: valid_chain_def)

text \<open>
  C4. For all integers \<open>last_proof\<close> and \<open>proof\<close>, \<open>valid_proof\<close> is true exactly when the
  first four characters of the hexadecimal SHA-256 digest of the two decimal numerals,
  written one after the other with nothing between them, are all \<open>0\<close>. The digest has 64
  characters, and the numerals are the decimal numerals of the two integers. The
  function takes and returns values only.
\<close>

theorem valid_proof_is_puzzle:
  "valid_proof (PInt last_proof) (PInt proof) = puzzle_solved last_proof proof
   \<and> length (hexdigest (sha256 (encode (str_int last_proof @ str_int proof)))) = 64
   \<and> int_of_decimal (str_int last_proof) = last_proof
   \<and> int_of_decimal (str_int proof) = proof"
  by (simp add: valid_proof_def puzzle_solved_def py_str_def Let_def take4_zero length_digest
        int_of_decimal_str_int)

theorem valid_proof_is_puzzle_witness:
  "valid_proof (PInt 93711) (PInt 1) = puzzle_solved 93711 1 \<and> puzzle_solved 93711 1
   \<and> valid_proof (PInt 93711) (PInt 0) = puzzle_solved 93711 0 \<and> \<not> puzzle_solved 93711 0"
  using valid_proof_is_puzzle [of 93711 1] valid_proof_is_puzzle [of 93711 0]
    valid_proof_93711_1 valid_proof_93711_0
  by simp

text \<open>
  C5, amended. When \<open>resolve_conflicts\<close> returns true, some visited peer answered with
  status 200, a reported length strictly greater than the length of the local chain and
  a chain that passes \<open>valid_chain\<close>; the local chain has been replaced by that peer's
  chain, and no peer offering a valid chain reports a greater length. When it returns
  false, the ledger is unchanged and every peer offering a valid chain reports a length
  of at most the local one. When fetching a peer or validating a chain raises, the
  exception is the outcome of the call and the ledger is unchanged.
\<close>

theorem resolve_conflicts_longest_valid:
  "(resolve_conflicts get iterate s = (s', Inr True) \<longrightarrow>
      (\<exists>node \<in> set (iterate (nodes s)). \<exists>r.
          offers get node r \<and> int (length (chain s)) < json_length r \<and>
          s' = s\<lparr>chain := json_chain r\<rparr> \<and>
          (\<forall>node' \<in> set (iterate (nodes s)). \<forall>r'. offers get node' r' \<longrightarrow>
              json_length r' \<le> json_length r)))
   \<and> (resolve_conflicts get iterate s = (s', Inr False) \<longrightarrow>
      s' = s \<and>
      (\<forall>node \<in> set (iterate (nodes s)). \<forall>r. offers get node r \<longrightarrow>
          json_length r \<le> int (length (chain s))))
   \<and> (resolve_conflicts get iterate s = (s', Inl e) \<longrightarrow> s' = s)"
proof -
  have t: "\<exists>node \<in> set (iterate (nodes s)). \<exists>r.
          offers get node r \<and> int (length (chain s)) < json_length r \<and>
          s' = s\<lparr>chain := json_chain r\<rparr> \<and>
          (\<forall>node' \<in> set (iterate (nodes s)). \<forall>r'. offers get node' r' \<longrightarrow>
              json_length r' \<le> json_length r)"
    if a: "resolve_conflicts get iterate s = (s', Inr True)"
  proof -
    from a obtain c where
      l: "resolve_loop get (iterate (nodes s)) None (int (length (chain s))) = Inr (Some c)"
      and s': "s' = s\<lparr>chain := c\<rparr>"
      by (auto simp: resolve_conflicts_def Let_def split: sum.splits option.splits if_splits)
    from resolve_loop_result [OF l] obtain node r where
      "node \<in> set (iterate (nodes s))" "offers get node r" "int (length (chain s)) < json_length r"
      "Some c = Some (json_chain r)"
      "\<forall>node' \<in> set (iterate (nodes s)). \<forall>r'. offers get node' r' \<longrightarrow> json_length r' \<le> json_length r"
      by blast
    with s' show ?thesis by (intro bexI [of _ node] exI [of _ r]) simp_all
  qed
  have f: "s' = s \<and> (\<forall>node \<in> set (iterate (nodes s)). \<forall>r. offers get node r \<longrightarrow>
          json_length r \<le> int (length (chain s)))"
    if a: "resolve_conflicts get iterate s = (s', Inr False)"
  proof -
    from a obtain res where
      l: "resolve_loop get (iterate (nodes s)) None (int (length (chain s))) = Inr res"
      and res: "res = None \<or> res = Some []" and s': "s' = s"
      by (auto simp: resolve_conflicts_def Let_def split: sum.splits option.splits if_splits)
    have no: "res \<noteq> Some (json_chain r)" if "offers get node r" for node r
      using res that by (auto simp: offers_def dest: valid_chain_nonempty)
    from resolve_loop_result [OF l] no
    have nb: "\<forall>node \<in> set (iterate (nodes s)). \<forall>r.
          get (chain_url node) = Inr r \<and> status_code r = 200 \<and>
          int (length (chain s)) < json_length r \<longrightarrow> valid_chain (json_chain r) = Inr False"
      by blast
    have "json_length r \<le> int (length (chain s))"
      if "node \<in> set (iterate (nodes s))" "offers get node r" for node r
    proof (rule ccontr)
      assume "\<not> json_length r \<le> int (length (chain s))"
      then have "int (length (chain s)) < json_length r" by simp
      with nb that have "valid_chain (json_chain r) = Inr False"
        unfolding offers_def by blast
      with that(2) show False by (simp add: offers_def)
    qed
    with s' show ?thesis by blast
  qed
  have e: "s' = s" if "resolve_conflicts get iterate s = (s', Inl e)"
    using that
    by (auto simp: resolve_conflicts_def Let_def split: sum.splits option.splits if_splits)
  from t f e show ?thesis by blast
qed

theorem resolve_conflicts_longest_valid_witness:
  "resolve_conflicts (example_get 93711) example_order (example_ledger 7) =
      ((example_ledger 7)\<lparr>chain := [example_block 93711]\<rparr>, Inr True)
   \<and> (\<exists>node \<in> set (example_order (nodes (example_ledger 7))). \<exists>r.
        offers (example_get 93711) node r \<and> int (length (chain (example_ledger 7))) < json_length r \<and>
        (example_ledger 7)\<lparr>chain := [example_block 93711]\<rparr> = (example_ledger 7)\<lparr>chain := json_chain r\<rparr>)
   \<and> resolve_conflicts tie_get example_order (example_ledger 7) = (example_ledger 7, Inr False)
   \<and> offers tie_get ''10.0.0.2:5000''
        \<lparr>status_code = 200, json_length = 1, json_chain = [example_block 93711]\<rparr>
   \<and> json_length \<lparr>status_code = 200, json_length = 1, json_chain = [example_block 93711]\<rparr>
        \<le> int (length (chain (example_ledger 7)))
   \<and> resolve_conflicts (example_get 7) (\<lambda>S. [''10.0.0.3:5000'']) (example_ledger 7) =
        (example_ledger 7, Inl ConnectionError)"
proof -
  from resolve_conflicts_longest_valid
         [of "example_get 93711" example_order "example_ledger 7"
             "(example_ledger 7)\<lparr>chain := [example_block 93711]\<rparr>"]
       resolve_example_replaces [of 93711]
  have "\<exists>node \<in> set (example_order (nodes (example_ledger 7))). \<exists>r.
        offers (example_get 93711) node r \<and> int (length (chain (example_ledger 7))) < json_length r \<and>
        (example_ledger 7)\<lparr>chain := [example_block 93711]\<rparr> = (example_ledger 7)\<lparr>chain := json_chain r\<rparr>"
    by blast
  moreover from resolve_conflicts_longest_valid
         [of tie_get example_order "example_ledger 7" "example_ledger 7"]
       resolve_example_tie
  have "\<forall>node \<in> set (example_order (nodes (example_ledger 7))). \<forall>r. offers tie_get node r \<longrightarrow>
        json_length r \<le> int (length (chain (example_ledger 7)))"
    by blast
  moreover have o: "offers tie_get ''10.0.0.2:5000''
        \<lparr>status_code = 200, json_length = 1, json_chain = [example_block 93711]\<rparr>"
    by (simp add: offers_def tie_get_def valid_chain_def)
  moreover have "''10.0.0.2:5000'' \<in> set (example_order (nodes (example_ledger 7)))"
    by (simp add: example_order_def)
  ultimately have "json_length \<lparr>status_code = 200, json_length = 1, json_chain = [example_block 93711]\<rparr>
        \<le> int (length (chain (example_ledger 7)))"
    by blast
  with o show ?thesis
    using resolve_example_replaces [of 93711] resolve_example_tie resolve_example_elsewhere
      \<open>\<exists>node \<in> set (example_order (nodes (example_ledger 7))). \<exists>r.
        offers (example_get 93711) node r \<and> int (length (chain (example_ledger 7))) < json_length r \<and>
        (example_ledger 7)\<lparr>chain := [example_block 93711]\<rparr> = (example_ledger 7)\<lparr>chain := json_chain r\<rparr>\<close>
    by blast
qed

text \<open>
  C5 as stated fails where no peer qualifies and a fetch raises: with one peer that
  cannot be reached the call raises \<open>ConnectionError\<close> instead of returning false.
\<close>

theorem resolve_conflicts_unreachable_counterexample:
  "resolve_conflicts unreachable example_order (example_ledger 7) = (example_ledger 7, Inl ConnectionError)
   \<and> resolve_conflicts unreachable example_order (example_ledger 7) \<noteq> (example_ledger 7, Inr False)"
  by (simp add: resolve_example_unreachable)




text \<open>
  C7. When a call of \<open>mine\<close> returns, the chain is the old chain with exactly one block
  appended, the buffer of pending transactions is empty, and the new block holds the
  transactions that were pending followed by the reward transaction (sender \<open>"0"\<close>,
  recipient the identifier of the node, amount 1).
\<close>

theorem mine_appends_one_block:
  assumes "mine now nid s = Some (s', Inr resp)"
  shows "length (chain s') = length (chain s) + 1
       \<and> take (length (chain s)) (chain s') = chain s
       \<and> current_transactions s' = []
       \<and> getitem (last (chain s')) ''transactions'' =
           Inr (PList (current_transactions s @
             [PDict [(''sender'', PStr ''0''), (''recipient'', PStr nid), (''amount'', PInt 1)]]))"
proof -
  from mine_returns [OF assms] obtain lp p where
    "s' = s\<lparr>current_transactions := [],
            chain := chain s @ [PDict
              [(''index'', PInt (int (length (chain s)) + 1)),
               (''timestamp'', now),
               (''transactions'', PList (current_transactions s @
                  [PDict [(''sender'', PStr ''0''), (''recipient'', PStr nid), (''amount'', PInt 1)]])),
               (''proof'', PStr (hash (last (chain s)))),
               (''previous_hash'',
                  if p \<noteq> 0 then PInt p else PStr (hash (last (chain s))))]]\<rparr>"
    by blast
  then show ?thesis by simp
qed

theorem mine_appends_one_block_witness:
  "\<exists>s' resp. mine (PFloat ''1543622460.25'') ''9f3c'' (example_ledger 93711) = Some (s', Inr resp)
     \<and> length (chain s') = 2
     \<and> take 1 (chain s') = [example_block 93711]
     \<and> current_transactions s' = []
     \<and> getitem (last (chain s')) ''transactions'' =
         Inr (PList
           [PDict [(''sender'', PStr ''A''), (''recipient'', PStr ''B''), (''amount'', PInt 10)],
            PDict [(''sender'', PStr ''0''), (''recipient'', PStr ''9f3c''), (''amount'', PInt 1)]])"
proof -
  obtain s' resp where
    m: "mine (PFloat ''1543622460.25'') ''9f3c'' (example_ledger 93711) = Some (s', Inr resp)"
    using mine_example_93711 by blast
  from mine_appends_one_block [OF m] m show ?thesis
    by (simp add: example_ledger_def)
qed

text \<open>
  C8. Two values with the same content, their dicts free of repeated keys, have the same
  hash, whatever the order in which the items of their dicts, nested ones included, were
  inserted; in particular a dict and any rearrangement of its items. The hash is always a
  text of 64 hexadecimal digits.
\<close>

theorem hash_ignores_insertion_order:
  "(wf_pyval a \<and> wf_pyval b \<and> same_content a b \<longrightarrow> hash a = hash b)
   \<and> (distinct (map fst kvs) \<and> mset kvs' = mset kvs \<longrightarrow> hash (PDict kvs') = hash (PDict kvs))
   \<and> length (hash a) = 64
   \<and> list_all (\<lambda>c. c \<in> set ''0123456789abcdef'') (hash a)"
  using dumps_same_content [of a b] dumps_permuted [of kvs kvs'] hash_hex [of a]
  by (auto simp: hash_def)

theorem hash_ignores_insertion_order_witness:
  "wf_pyval (fst reordered_block) \<and> wf_pyval (snd reordered_block)
   \<and> same_content (fst reordered_block) (snd reordered_block)
   \<and> fst reordered_block \<noteq> snd reordered_block
   \<and> hash (fst reordered_block) = hash (snd reordered_block)
   \<and> distinct (map fst [(''proof'', PInt 100), (''previous_hash'', PInt 1)])
   \<and> mset [(''previous_hash'', PInt 1), (''proof'', PInt 100)] =
       mset [(''proof'', PInt 100), (''previous_hash'', PInt 1)]
   \<and> hash (PDict [(''previous_hash'', PInt 1), (''proof'', PInt 100)]) =
       hash (PDict [(''proof'', PInt 100), (''previous_hash'', PInt 1)])"
proof -
  have p: "distinct (map fst [(''proof'', PInt 100), (''previous_hash'', PInt 1)])
   \<and> mset [(''previous_hash'', PInt 1), (''proof'', PInt 100)] =
       mset [(''proof'', PInt 100), (''previous_hash'', PInt 1)]"
    by simp
  from hash_ignores_insertion_order [of "fst reordered_block" "snd reordered_block"]
    reordered_block_same
  have "hash (fst reordered_block) = hash (snd reordered_block)" by blast
  moreover from hash_ignores_insertion_order
    [of _ _ "[(''proof'', PInt 100), (''previous_hash'', PInt 1)]"
        "[(''previous_hash'', PInt 1), (''proof'', PInt 100)]"] p
  have "hash (PDict [(''previous_hash'', PInt 1), (''proof'', PInt 100)]) =
       hash (PDict [(''proof'', PInt 100), (''previous_hash'', PInt 1)])"
    by blast
  ultimately show ?thesis using reordered_block_same p by blast
qed

text \<open>
  C9, amended. \<open>register_node\<close> has no error of its own: it adds whatever network location
  \<open>urlparse\<close> returns to the set of peers, and for an address without a network location
  (in particular any address without a slash) that is the empty string, which is added
  like any other. Only a \<open>ValueError\<close> raised by \<open>urlparse\<close> itself leaves the set
  unchanged. Registering the same address twice gives the same ledger as registering it
  once.
\<close>

theorem register_node_adds_netloc:
  "(urlparse_netloc ip address = Inr netloc \<longrightarrow>
      register_node ip address s = (s\<lparr>nodes := insert netloc (nodes s)\<rparr>, Inr ()))
   \<and> (urlparse_netloc ip address = Inl e \<longrightarrow> register_node ip address s = (s, Inl e))
   \<and> (CHR ''/'' \<notin> set address \<longrightarrow>
      register_node ip address s = (s\<lparr>nodes := insert [] (nodes s)\<rparr>, Inr ()))
   \<and> fst (register_node ip address (fst (register_node ip address s))) =
       fst (register_node ip address s)"
  using urlparse_netloc_no_slash [of address ip]
  by (auto simp: register_node_def split: sum.splits)

theorem register_node_adds_netloc_witness:
  "urlparse_netloc no_ip_literal ''http://192.168.0.5:5000'' = Inr ''192.168.0.5:5000''
   \<and> register_node no_ip_literal ''http://192.168.0.5:5000'' (example_ledger 7) =
       ((example_ledger 7)\<lparr>nodes := {''192.168.0.5:5000'', ''10.0.0.2:5000''}\<rparr>, Inr ())
   \<and> urlparse_netloc no_ip_literal ''//['' = Inl ValueError
   \<and> register_node no_ip_literal ''//['' (example_ledger 7) = (example_ledger 7, Inl ValueError)
   \<and> CHR ''/'' \<notin> set ''localhost:5000''
   \<and> register_node no_ip_literal ''localhost:5000'' (example_ledger 7) =
       ((example_ledger 7)\<lparr>nodes := {[], ''10.0.0.2:5000''}\<rparr>, Inr ())"
proof -
  have n: "nodes (example_ledger 7) = {''10.0.0.2:5000''}" by (simp add: example_ledger_def)
  have s: "CHR ''/'' \<notin> set ''localhost:5000''" by simp
  from register_node_adds_netloc
         [of no_ip_literal "''http://192.168.0.5:5000''" "''192.168.0.5:5000''" "example_ledger 7"]
       urlparse_example
  have "register_node no_ip_literal ''http://192.168.0.5:5000'' (example_ledger 7) =
       ((example_ledger 7)\<lparr>nodes := {''192.168.0.5:5000'', ''10.0.0.2:5000''}\<rparr>, Inr ())"
    by (simp add: n)
  moreover from register_node_adds_netloc
         [of no_ip_literal "''//[''" _ "example_ledger 7" ValueError] urlparse_bracket
  have "register_node no_ip_literal ''//['' (example_ledger 7) = (example_ledger 7, Inl ValueError)"
    by blast
  moreover from register_node_adds_netloc [of no_ip_literal "''localhost:5000''" _ "example_ledger 7"] s
  have "register_node no_ip_literal ''localhost:5000'' (example_ledger 7) =
       ((example_ledger 7)\<lparr>nodes := {[], ''10.0.0.2:5000''}\<rparr>, Inr ())"
    by (simp add: n)
  ultimately show ?thesis using urlparse_example urlparse_bracket s by blast
qed

text \<open>
  C9 as stated fails for the address \<open>192.168.0.5:5000\<close>, which has no network location:
  the call returns normally and the set of peers, empty before, holds the empty string.
\<close>

theorem register_node_no_netloc_counterexample:
  "register_node no_ip_literal ''192.168.0.5:5000'' \<lparr>chain = [], current_transactions = [], nodes = {}\<rparr>
     = (\<lparr>chain = [], current_transactions = [], nodes = {[]}\<rparr>, Inr ())"
  by (simp add: register_node_def urlparse_netloc_no_slash)

text \<open>
  C10. In \<open>new_block\<close> the default of \<open>previous_hash\<close> is taken when the argument is falsy,
  not when it is absent: with a falsy argument (0, the empty string, \<open>None\<close>) and a chain
  that has a last block, the sealed block's \<open>previous_hash\<close> is the hash of that block; a
  truthy argument is stored as it is; a falsy argument on an empty chain raises
  \<open>IndexError\<close>. The genesis block is sealed on the empty chain with the truthy
  \<open>previous_hash\<close> 1.
\<close>

theorem new_block_default_on_falsy:
  "(\<forall>now ph pr s. \<not> truthy ph \<and> chain s \<noteq> [] \<longrightarrow>
      (\<exists>s' b. new_block now ph pr s = (s', Inr b) \<and> last (chain s') = b \<and>
         getitem b ''previous_hash'' = Inr (PStr (hash (last (chain s))))))
   \<and> (\<forall>now ph pr s. truthy ph \<longrightarrow>
      (\<exists>s' b. new_block now ph pr s = (s', Inr b) \<and> last (chain s') = b \<and>
         getitem b ''previous_hash'' = Inr ph))
   \<and> (\<forall>now ph pr s. \<not> truthy ph \<and> chain s = [] \<longrightarrow> new_block now ph pr s = (s, Inl IndexError))
   \<and> \<not> truthy (PInt 0) \<and> \<not> truthy (PStr []) \<and> \<not> truthy PNone \<and> truthy (PInt 1)
   \<and> (\<forall>now. \<exists>s. Blockchain_init now = Inr s \<and>
         chain s = [PDict [(''index'', PInt 1), (''timestamp'', now), (''transactions'', PList []),
                           (''proof'', PInt 100), (''previous_hash'', PInt 1)]])"
  by (simp add: new_block_truthy new_block_falsy new_block_falsy_empty Blockchain_init_def)

theorem new_block_default_on_falsy_witness:
  "\<not> truthy (PInt 0) \<and> chain (example_ledger 7) \<noteq> []
   \<and> (\<exists>s' b. new_block (PFloat ''1543622460.25'') (PInt 0) (PInt 5) (example_ledger 7) = (s', Inr b)
         \<and> last (chain s') = b
         \<and> getitem b ''previous_hash'' = Inr (PStr (hash (example_block 7))))
   \<and> truthy (PStr ''abc'')
   \<and> (\<exists>s' b. new_block (PFloat ''1543622460.25'') (PStr ''abc'') (PInt 5) (example_ledger 7) = (s', Inr b)
         \<and> last (chain s') = b \<and> getitem b ''previous_hash'' = Inr (PStr ''abc''))
   \<and> chain \<lparr>chain = [], current_transactions = [], nodes = {}\<rparr> = []
   \<and> new_block (PFloat ''1543622460.25'') PNone (PInt 5) \<lparr>chain = [], current_transactions = [], nodes = {}\<rparr>
       = (\<lparr>chain = [], current_transactions = [], nodes = {}\<rparr>, Inl IndexError)"
proof -
  have f: "\<not> truthy (PInt 0) \<and> chain (example_ledger 7) \<noteq> []"
    by (simp add: example_ledger_def)
  have t: "truthy (PStr ''abc'')" by simp
  have e: "\<not> truthy PNone \<and> chain \<lparr>chain = [], current_transactions = [], nodes = {}\<rparr> = []"
    by simp
  from new_block_default_on_falsy f
  have "\<exists>s' b. new_block (PFloat ''1543622460.25'') (PInt 0) (PInt 5) (example_ledger 7) = (s', Inr b)
         \<and> last (chain s') = b
         \<and> getitem b ''previous_hash'' = Inr (PStr (hash (last (chain (example_ledger 7)))))"
    by blast
  moreover from new_block_default_on_falsy t
  have "\<exists>s' b. new_block (PFloat ''1543622460.25'') (PStr ''abc'') (PInt 5) (example_ledger 7) = (s', Inr b)
         \<and> last (chain s') = b \<and> getitem b ''previous_hash'' = Inr (PStr ''abc'')"
    by blast
  moreover from new_block_default_on_falsy e
  have "new_block (PFloat ''1543622460.25'') PNone (PInt 5) \<lparr>chain = [], current_transactions = [], nodes = {}\<rparr>
       = (\<lparr>chain = [], current_transactions = [], nodes = {}\<rparr>, Inl IndexError)"
    by blast
  ultimately show ?thesis using f t e by (simp add: example_ledger_def)
qed

end
